theory Spec2Isabelle
  imports Complex_Main "HOL-Library.Monad_Syntax"
begin

section \<open>Tensors\<close>

text \<open>
  The module \<^verbatim>\<open>modeling_mamba2.py\<close> computes with PyTorch tensors.  A tensor is modelled
  by its shape and its contents in row-major order.  The contents are real numbers: the
  casts between float16 and float32 (\<^verbatim>\<open>.float()\<close>, \<^verbatim>\<open>.to(dtype)\<close>) are the identity
  here, and rounding, overflow and NaN are outside the model.  A PyTorch call that raises
  (a shape mismatch, an index out of range) returns \<open>None\<close>.
\<close>

record tensor =
  shape :: "nat list"
  data :: "real list"

fun indices :: "nat list \<Rightarrow> nat list list" where
  "indices [] = [[]]"
| "indices (n # s) = concat (map (\<lambda>i. map ((#) i) (indices s)) [0..<n])"

fun ravel :: "nat list \<Rightarrow> nat list \<Rightarrow> nat" where
  "ravel (n # s) (i # js) = i * prod_list s + ravel s js"
| "ravel _ _ = 0"

fun unravel :: "nat list \<Rightarrow> nat \<Rightarrow> nat list" where
  "unravel [] k = []"
| "unravel (n # s) k = (k div prod_list s) # unravel s (k mod prod_list s)"

definition valid_index :: "nat list \<Rightarrow> nat list \<Rightarrow> bool" where
  "valid_index s idx = list_all2 (<) idx s"

definition entry :: "tensor \<Rightarrow> nat list \<Rightarrow> real" where
  "entry t idx = data t ! ravel (shape t) idx"

definition tabulate :: "nat list \<Rightarrow> (nat list \<Rightarrow> real) \<Rightarrow> tensor" where
  "tabulate s f = \<lparr>shape = s, data = map f (indices s)\<rparr>"

definition ndim :: "tensor \<Rightarrow> nat" where
  "ndim t = length (shape t)"

definition numel :: "tensor \<Rightarrow> nat" where
  "numel t = prod_list (shape t)"

definition zeros :: "nat list \<Rightarrow> tensor" where
  "zeros s = tabulate s (\<lambda>idx. 0)"

definition tmap :: "(real \<Rightarrow> real) \<Rightarrow> tensor \<Rightarrow> tensor" where
  "tmap f t = tabulate (shape t) (\<lambda>idx. f (entry t idx))"

subsection \<open>Broadcasting\<close>

text \<open>
  Shapes are aligned at their last dimension; two sizes are compatible when they are equal
  or one of them is 1.  \<open>bc_index s idx\<close> is the index into an operand of shape \<open>s\<close> that
  provides the element \<open>idx\<close> of the broadcast result.
\<close>

fun broadcast_rev :: "nat list \<Rightarrow> nat list \<Rightarrow> nat list option" where
  "broadcast_rev [] ys = Some ys"
| "broadcast_rev xs [] = Some xs"
| "broadcast_rev (x # xs) (y # ys) =
     (if x = y \<or> y = 1 then map_option ((#) x) (broadcast_rev xs ys)
      else if x = 1 then map_option ((#) y) (broadcast_rev xs ys)
      else None)"

definition broadcast_shapes :: "nat list \<Rightarrow> nat list \<Rightarrow> nat list option" where
  "broadcast_shapes a b = map_option rev (broadcast_rev (rev a) (rev b))"

definition bc_index :: "nat list \<Rightarrow> nat list \<Rightarrow> nat list" where
  "bc_index s idx =
     map2 (\<lambda>n i. if n = 1 then 0 else i) s (drop (length idx - length s) idx)"

definition binop :: "(real \<Rightarrow> real \<Rightarrow> real) \<Rightarrow> tensor \<Rightarrow> tensor \<Rightarrow> tensor option" where
  "binop f a b =
     (case broadcast_shapes (shape a) (shape b) of
        None \<Rightarrow> None
      | Some s \<Rightarrow>
          Some (tabulate s (\<lambda>idx. f (entry a (bc_index (shape a) idx))
                                     (entry b (bc_index (shape b) idx)))))"

definition mul :: "tensor \<Rightarrow> tensor \<Rightarrow> tensor option" where
  "mul = binop (*)"

definition add :: "tensor \<Rightarrow> tensor \<Rightarrow> tensor option" where
  "add = binop (+)"

text \<open>
  \<^verbatim>\<open>src.expand(s)\<close>: the source may have fewer dimensions than \<open>s\<close>, never more, and each
  of its sizes is the target's or 1.
\<close>

definition expand :: "tensor \<Rightarrow> nat list \<Rightarrow> tensor option" where
  "expand t s =
     (if broadcast_shapes (shape t) s = Some s
      then Some (tabulate s (\<lambda>idx. entry t (bc_index (shape t) idx)))
      else None)"

text \<open>
  \<^verbatim>\<open>dst.copy_(src)\<close> overwrites the contents of \<open>dst\<close> in place: the source is broadcast
  to the shape of the destination, and the call raises when the broadcast shape is not
  the destination's.  \<^verbatim>\<open>dst += src\<close> is in place in the same way.
\<close>

definition tensor_copy :: "tensor \<Rightarrow> tensor \<Rightarrow> tensor option" where
  "tensor_copy dst src = expand src (shape dst)"

definition iadd :: "tensor \<Rightarrow> tensor \<Rightarrow> tensor option" where
  "iadd dst src =
     (if broadcast_shapes (shape dst) (shape src) = Some (shape dst) then add dst src
      else None)"

subsection \<open>Indexing, views and reductions\<close>

text \<open>\<^verbatim>\<open>t[..., i, ...]\<close> with an integer \<open>i\<close> at dimension \<open>d\<close>.\<close>

definition select :: "nat \<Rightarrow> nat \<Rightarrow> tensor \<Rightarrow> tensor option" where
  "select d i t =
     (if d < ndim t \<and> i < shape t ! d
      then Some (tabulate (take d (shape t) @ drop (Suc d) (shape t))
                   (\<lambda>idx. entry t (take d idx @ i # drop d idx)))
      else None)"

text \<open>A new dimension of size 1 at position \<open>d\<close> (\<^verbatim>\<open>None\<close> in an index, \<^verbatim>\<open>unsqueeze\<close>).\<close>

definition unsqueeze :: "nat \<Rightarrow> tensor \<Rightarrow> tensor" where
  "unsqueeze d t =
     tabulate (take d (shape t) @ 1 # drop d (shape t))
       (\<lambda>idx. entry t (take d idx @ drop (Suc d) idx))"

text \<open>
  \<^verbatim>\<open>t[:, start:, :]\<close>: a negative start counts from the end, and Python clamps the
  start of a slice to the range of the dimension.
\<close>

definition slice_from1 :: "int \<Rightarrow> tensor \<Rightarrow> tensor option" where
  "slice_from1 start t =
     (if 3 \<le> ndim t
      then (let n = shape t ! 1;
                k = (if start < 0 then nat (max 0 (int n + start)) else min (nat start) n) in
            Some (tabulate ((shape t)[1 := n - k])
                    (\<lambda>idx. entry t (idx[1 := idx ! 1 + k]))))
      else None)"

definition narrow_last :: "tensor \<Rightarrow> nat \<Rightarrow> nat \<Rightarrow> tensor" where
  "narrow_last t off n =
     tabulate (butlast (shape t) @ [n]) (\<lambda>idx. entry t (butlast idx @ [last idx + off]))"

fun split_offsets :: "nat \<Rightarrow> nat list \<Rightarrow> (nat \<times> nat) list" where
  "split_offsets off [] = []"
| "split_offsets off (n # ns) = (off, n) # split_offsets (off + n) ns"

text \<open>
  \<^verbatim>\<open>torch.split(t, sizes, dim=-1)\<close> with a list of sizes: the sizes are non-negative and
  sum to the size of the last dimension, or the call raises.
\<close>

definition torch_split :: "tensor \<Rightarrow> int list \<Rightarrow> tensor list option" where
  "torch_split t sizes =
     (if shape t \<noteq> [] \<and> list_all (\<lambda>n. 0 \<le> n) sizes
         \<and> sum_list sizes = int (last (shape t))
      then Some (map (\<lambda>(off, n). narrow_last t off n) (split_offsets 0 (map nat sizes)))
      else None)"

definition swap12 :: "nat list \<Rightarrow> nat list" where
  "swap12 xs = (case xs of a # b # c # r \<Rightarrow> a # c # b # r | _ \<Rightarrow> xs)"

text \<open>\<^verbatim>\<open>t.transpose(1, 2)\<close>.\<close>

definition transpose12 :: "tensor \<Rightarrow> tensor option" where
  "transpose12 t =
     (if 3 \<le> ndim t then Some (tabulate (swap12 (shape t)) (\<lambda>idx. entry t (swap12 idx)))
      else None)"

text \<open>
  \<^verbatim>\<open>t.reshape(dims)\<close>: the contents keep their row-major order.  One entry of \<open>dims\<close>
  may be \<open>-1\<close> and is then inferred from the number of elements.
\<close>

definition infer_shape :: "nat \<Rightarrow> int list \<Rightarrow> nat list option" where
  "infer_shape n dims =
     (if list_all (\<lambda>d. 0 \<le> d) dims
      then (if prod_list (map nat dims) = n then Some (map nat dims) else None)
      else if length (filter (\<lambda>d. d = - 1) dims) = 1 \<and> list_all (\<lambda>d. - 1 \<le> d) dims
      then (let known = prod_list (map nat (filter (\<lambda>d. d \<noteq> - 1) dims)) in
            if known \<noteq> 0 \<and> n mod known = 0
            then Some (map (\<lambda>d. if d = - 1 then n div known else nat d) dims)
            else None)
      else None)"

definition torch_reshape :: "tensor \<Rightarrow> int list \<Rightarrow> tensor option" where
  "torch_reshape t dims =
     map_option (\<lambda>s. tabulate s (\<lambda>idx. entry t (unravel (shape t) (ravel s idx))))
       (infer_shape (numel t) dims)"

text \<open>
  \<^verbatim>\<open>F.pad(t, (p, 0))\<close>: \<open>p\<close> zeros in front of the last dimension; a negative \<open>p\<close> drops
  the first \<open>-p\<close> entries instead.
\<close>

definition F_pad_left :: "tensor \<Rightarrow> int \<Rightarrow> tensor option" where
  "F_pad_left t p =
     (if shape t \<noteq> [] \<and> 0 \<le> int (last (shape t)) + p
      then Some (tabulate (butlast (shape t) @ [nat (int (last (shape t)) + p)])
                   (\<lambda>idx. let j = int (last idx) - p in
                          if 0 \<le> j then entry t (butlast idx @ [nat j]) else 0))
      else None)"

text \<open>\<^verbatim>\<open>torch.roll(t, shifts=-1, dims=-1)\<close>: a cyclic shift to the left by one.\<close>

definition torch_roll :: "tensor \<Rightarrow> tensor option" where
  "torch_roll t =
     (if shape t \<noteq> []
      then Some (tabulate (shape t)
                   (\<lambda>idx. entry t (butlast idx @ [(last idx + 1) mod last (shape t)])))
      else None)"

text \<open>
  \<^verbatim>\<open>t[:, :, -1] = v\<close>.  The indexed view has the shape of \<open>t\<close> without its dimension 2.
  PyTorch drops the leading dimensions of size 1 of the value and then expands it to the
  shape of the view; the assignment raises when that is not possible.
\<close>

definition strip_ones :: "tensor \<Rightarrow> tensor" where
  "strip_ones v =
     (let s = dropWhile (\<lambda>n. n = 1) (shape v) in
      tabulate s (\<lambda>idx. entry v (replicate (ndim v - length s) 0 @ idx)))"

definition setitem_last :: "tensor \<Rightarrow> tensor \<Rightarrow> tensor option" where
  "setitem_last t v =
     (if 3 \<le> ndim t \<and> 0 < shape t ! 2
      then (case expand (strip_ones v) (take 2 (shape t) @ drop 3 (shape t)) of
              None \<Rightarrow> None
            | Some e \<Rightarrow>
                Some (tabulate (shape t)
                        (\<lambda>idx. if idx ! 2 = shape t ! 2 - 1
                               then entry e (take 2 idx @ drop 3 idx) else entry t idx)))
      else None)"

text \<open>\<^verbatim>\<open>torch.sum(t, dim=-1)\<close> and \<^verbatim>\<open>t.mean(-1, keepdim=True)\<close>.\<close>

definition torch_sum :: "tensor \<Rightarrow> tensor" where
  "torch_sum t =
     tabulate (butlast (shape t))
       (\<lambda>idx. if shape t = [] then entry t [] else (\<Sum>j\<leftarrow>[0..<last (shape t)]. entry t (idx @ [j])))"

definition mean_keepdim :: "tensor \<Rightarrow> tensor" where
  "mean_keepdim t =
     (if shape t = [] then t
      else tabulate (butlast (shape t) @ [1])
             (\<lambda>idx. (\<Sum>j\<leftarrow>[0..<last (shape t)]. entry t (butlast idx @ [j]))
                      / real (last (shape t))))"

text \<open>
  \<^verbatim>\<open>torch.matmul(a, b)\<close>: a one-dimensional argument is a row (left) or a column
  (right) whose added dimension is removed again; the dimensions in front of the last
  two are batch dimensions and are broadcast.
\<close>

definition torch_matmul :: "tensor \<Rightarrow> tensor \<Rightarrow> tensor option" where
  "torch_matmul a b =
     (if ndim a = 0 \<or> ndim b = 0 then None
      else
        (let sa = (if ndim a = 1 then 1 # shape a else shape a);
             sb = (if ndim b = 1 then shape b @ [1] else shape b);
             m = sa ! (length sa - 2);
             k = last sa;
             p = last sb;
             ba = take (length sa - 2) sa;
             bb = take (length sb - 2) sb
         in if k \<noteq> sb ! (length sb - 2) then None
            else
              (case broadcast_shapes ba bb of
                 None \<Rightarrow> None
               | Some bs \<Rightarrow>
                   Some (tabulate
                     (bs @ (if ndim a = 1 then [] else [m]) @ (if ndim b = 1 then [] else [p]))
                     (\<lambda>idx.
                        let bi = take (length bs) idx;
                            ia = (if ndim a = 1 then [] else bc_index ba bi @ [idx ! length bs]);
                            ib = (if ndim b = 1 then [] else bc_index bb bi)
                        in (\<Sum>r\<leftarrow>[0..<k].
                              entry a (ia @ [r])
                              * entry b (ib @ (if ndim b = 1 then [r] else [r, last idx]))))))))"

text \<open>\<^verbatim>\<open>torch.stack(ts, dim=1)\<close> and \<^verbatim>\<open>torch.cat([a, b], dim=-1)\<close>.\<close>

definition torch_stack :: "tensor list \<Rightarrow> tensor option" where
  "torch_stack ts =
     (case ts of
        [] \<Rightarrow> None
      | t # us \<Rightarrow>
          if shape t \<noteq> [] \<and> list_all (\<lambda>u. shape u = shape t) us
          then Some (tabulate (hd (shape t) # length ts # tl (shape t))
                       (\<lambda>idx. entry (ts ! (idx ! 1)) (hd idx # drop 2 idx)))
          else None)"

definition torch_cat :: "tensor \<Rightarrow> tensor \<Rightarrow> tensor option" where
  "torch_cat a b =
     (if shape a \<noteq> [] \<and> shape b \<noteq> [] \<and> butlast (shape a) = butlast (shape b)
      then Some (tabulate (butlast (shape a) @ [last (shape a) + last (shape b)])
                   (\<lambda>idx. if last idx < last (shape a) then entry a idx
                          else entry b (butlast idx @ [last idx - last (shape a)])))
      else None)"

subsection \<open>Pointwise functions\<close>

definition silu :: "real \<Rightarrow> real" where
  "silu x = x / (1 + exp (- x))"

text \<open>\<^verbatim>\<open>F.softplus\<close> with its defaults (\<open>beta = 1\<close>, \<open>threshold = 20\<close>).\<close>

definition softplus :: "real \<Rightarrow> real" where
  "softplus x = (if 20 < x then x else ln (1 + exp x))"

definition rsqrt :: "real \<Rightarrow> real" where
  "rsqrt x = 1 / sqrt x"

section \<open>Layers of \<^verbatim>\<open>torch.nn\<close>\<close>

text \<open>
  \<^verbatim>\<open>nn.Linear\<close>: the weight has shape \<open>[out_features, in_features]\<close>, the optional bias
  \<open>[out_features]\<close>; the layer acts on the last dimension of its input.
\<close>

record Linear =
  lin_weight :: tensor
  lin_bias :: "tensor option"

definition Linear_forward :: "Linear \<Rightarrow> tensor \<Rightarrow> tensor option" where
  "Linear_forward lin x =
     (let w = lin_weight lin in
      if ndim w = 2 \<and> shape x \<noteq> [] \<and> last (shape x) = shape w ! 1
         \<and> (case lin_bias lin of None \<Rightarrow> True | Some b \<Rightarrow> shape b = [shape w ! 0])
      then Some (tabulate (butlast (shape x) @ [shape w ! 0])
                   (\<lambda>idx. (\<Sum>r\<leftarrow>[0..<shape w ! 1]. entry x (butlast idx @ [r]) * entry w [last idx, r])
                          + (case lin_bias lin of None \<Rightarrow> 0 | Some b \<Rightarrow> entry b [last idx])))
      else None)"

text \<open>
  \<^verbatim>\<open>nn.Conv1d(in_channels=c, out_channels=c, kernel_size=k, groups=c, padding=p)\<close>, the
  depthwise convolution of \<^verbatim>\<open>Mamba2Mixer.__init__\<close>: the weight has shape \<open>[c, 1, k]\<close>, the
  input \<open>[batch, c, l]\<close> is padded with \<open>p\<close> zeros on both sides, and the output has
  length \<open>l + 2 * p - k + 1\<close>:
  \<open>out[b, c, j] = bias[c] + (\<Sum>i<k. weight[c, 0, i] * padded[b, c, j + i])\<close>.
  The layer raises on an input of length 0.
\<close>

record Conv1d =
  conv_weight :: tensor
  conv_bias :: "tensor option"
  conv_padding :: nat

definition Conv1d_forward :: "Conv1d \<Rightarrow> tensor \<Rightarrow> tensor option" where
  "Conv1d_forward conv x =
     (let w = conv_weight conv; p = conv_padding conv in
      if ndim x = 3 \<and> ndim w = 3 \<and> shape w ! 0 = shape x ! 1 \<and> shape w ! 1 = 1
         \<and> 0 < shape x ! 2 \<and> 0 < shape w ! 2 \<and> shape w ! 2 \<le> shape x ! 2 + 2 * p
         \<and> (case conv_bias conv of None \<Rightarrow> True | Some b \<Rightarrow> shape b = [shape w ! 0])
      then Some (tabulate [shape x ! 0, shape x ! 1, shape x ! 2 + 2 * p + 1 - shape w ! 2]
                   (\<lambda>idx. (case conv_bias conv of None \<Rightarrow> 0 | Some b \<Rightarrow> entry b [idx ! 1])
                          + (\<Sum>i\<leftarrow>[0..<shape w ! 2].
                               entry w [idx ! 1, 0, i]
                               * (let j = idx ! 2 + i in
                                  if p \<le> j \<and> j < p + shape x ! 2
                                  then entry x [idx ! 0, idx ! 1, j - p] else 0))))
      else None)"

text \<open>
  \<^verbatim>\<open>nn.Embedding\<close>: the weight has shape \<open>[vocab_size, hidden_size]\<close>; \<open>input_ids\<close> is a
  batch of rows of token ids.
\<close>

definition Embedding_forward :: "tensor \<Rightarrow> nat list list \<Rightarrow> tensor option" where
  "Embedding_forward w input_ids =
     (if ndim w = 2 \<and> list_all (\<lambda>row. length row = length (hd input_ids)) input_ids
         \<and> list_all (list_all (\<lambda>i. i < shape w ! 0)) input_ids
      then Some (tabulate [length input_ids, length (hd input_ids), shape w ! 1]
                   (\<lambda>idx. entry w [input_ids ! (idx ! 0) ! (idx ! 1), idx ! 2]))
      else None)"

section \<open>The cache\<close>

text \<open>
  \<^verbatim>\<open>Mamba2Config\<close> is declared in \<^verbatim>\<open>configuration_mamba2.py\<close>; the record has the fields
  that the modelled functions read.
\<close>

record Mamba2Config =
  config_hidden_size :: nat
  config_num_heads :: nat
  config_head_dim :: nat
  config_state_size :: nat
  config_n_groups :: nat
  config_conv_kernel :: nat
  config_intermediate_size :: nat
  config_num_hidden_layers :: nat
  config_use_cache :: bool
  config_output_hidden_states :: bool
  config_use_return_dict :: bool

record Mamba2Cache =
  seqlen_offset :: int
  conv_states :: "nat \<rightharpoonup> tensor"
  ssm_states :: "nat \<rightharpoonup> tensor"

text \<open>\<^verbatim>\<open>Mamba2Cache.__init__\<close>.\<close>

definition Mamba2Cache_init :: "Mamba2Config \<Rightarrow> nat \<Rightarrow> Mamba2Cache" where
  "Mamba2Cache_init config batch_size =
     \<lparr>seqlen_offset = 0,
      conv_states = (\<lambda>i. if i < config_num_hidden_layers config
                          then Some (zeros [batch_size,
                                            config_intermediate_size config
                                              + 2 * config_n_groups config * config_state_size config,
                                            config_conv_kernel config])
                          else None),
      ssm_states = (\<lambda>i. if i < config_num_hidden_layers config
                         then Some (zeros [batch_size,
                                           config_n_groups config * config_state_size config,
                                           config_head_dim config])
                         else None)\<rparr>"

section \<open>Normalization layers\<close>

record Mamba2RMSNorm =
  weight :: tensor
  variance_epsilon :: real

record MambaRMSNormGated = Mamba2RMSNorm +
  norm_before_gate :: bool

text \<open>\<^verbatim>\<open>MambaRMSNormGated.forward\<close>.\<close>

definition MambaRMSNormGated_forward ::
  "MambaRMSNormGated \<Rightarrow> tensor \<Rightarrow> tensor option \<Rightarrow> tensor option" where
  "MambaRMSNormGated_forward self hidden_states gate = do {
     let variance = mean_keepdim (tmap (\<lambda>x. x\<^sup>2) hidden_states);
     hidden_states \<leftarrow> mul hidden_states (tmap (\<lambda>v. rsqrt (v + variance_epsilon self)) variance);
     hidden_states \<leftarrow>
       (case gate of
          None \<Rightarrow> Some hidden_states
        | Some gate \<Rightarrow>
            if norm_before_gate self then mul hidden_states (tmap silu gate)
            else do {
              hidden_states \<leftarrow> mul hidden_states (tmap silu gate);
              let variance = mean_keepdim (tmap (\<lambda>x. x\<^sup>2) hidden_states);
              mul hidden_states (tmap (\<lambda>v. rsqrt (v + variance_epsilon self)) variance)
            });
     mul (weight self) hidden_states
   }"

text \<open>\<^verbatim>\<open>Mamba2RMSNorm.forward\<close>.\<close>

definition Mamba2RMSNorm_forward :: "Mamba2RMSNorm \<Rightarrow> tensor \<Rightarrow> tensor option" where
  "Mamba2RMSNorm_forward self hidden_states = do {
     let variance = mean_keepdim (tmap (\<lambda>x. x\<^sup>2) hidden_states);
     hidden_states \<leftarrow> mul hidden_states (tmap (\<lambda>v. rsqrt (v + variance_epsilon self)) variance);
     mul (weight self) hidden_states
   }"

section \<open>The mixer\<close>

text \<open>
  The attributes that \<^verbatim>\<open>Mamba2Mixer.__init__\<close> sets and the forward passes read.
  \<open>act\<close> is \<^verbatim>\<open>ACT2FN[config.hidden_act]\<close>, a pointwise function from a table of
  \<^verbatim>\<open>transformers.activations\<close>, and \<open>activation\<close> is its name.  \<open>ssm_state_size\<close> and
  \<open>state_size\<close> are both set to \<^verbatim>\<open>config.state_size\<close>, \<open>conv_kernel_size\<close> to
  \<^verbatim>\<open>config.conv_kernel\<close>; \<open>conv1d\<close> has \<open>intermediate_size + 2 * n_groups * state_size\<close>
  channels and the padding \<open>conv_kernel - 1\<close>.
\<close>

record Mamba2Mixer =
  num_heads :: nat
  hidden_size :: nat
  ssm_state_size :: nat
  conv_kernel_size :: nat
  intermediate_size :: nat
  layer_idx :: nat
  use_conv_bias :: bool
  activation :: string
  act :: "real \<Rightarrow> real"
  n_groups :: nat
  state_size :: nat
  head_dim :: nat
  conv1d :: Conv1d
  in_proj :: Linear
  dt_bias :: tensor
  A_log :: tensor
  mixer_norm :: MambaRMSNormGated
  D :: tensor
  out_proj :: Linear

text \<open>
  The exceptions of the module.  \<open>RuntimeError\<close> stands for whatever a tensor operation,
  an index or a dictionary lookup raises.
\<close>

datatype error =
    ValueError string
  | RuntimeError
  | NameError string
  | UnboundLocalError string

subsection \<open>\<^verbatim>\<open>slow_forward\<close>, step 1: the projection and its split\<close>

text \<open>
  Lines 273 to 280.  The result is \<open>(d_mlp, z0, x0, gate, hidden_states, dt)\<close>.  \<open>//\<close> of
  Python rounds down, as \<open>div\<close> on \<open>int\<close> does.
\<close>

definition slow_project ::
  "Mamba2Mixer \<Rightarrow> tensor \<Rightarrow> nat \<Rightarrow> (int \<times> tensor \<times> tensor \<times> tensor \<times> tensor \<times> tensor) option" where
  "slow_project self input_states seq_len = do {
     projected_states \<leftarrow> Linear_forward (in_proj self) input_states;
     let d_mlp = (int (last (shape projected_states)) - 2 * int (ssm_state_size self)
                   - 2 * int (n_groups self) * int (state_size self) - int (num_heads self)) div 2;
     let d_mlp = (if seq_len \<noteq> 1 then 0 else d_mlp);
     parts \<leftarrow> torch_split projected_states
                [d_mlp, d_mlp, int (intermediate_size self),
                 int (intermediate_size self) + 2 * int (n_groups self) * int (state_size self),
                 int (num_heads self)];
     (case parts of
        [z0, x0, gate, hidden_states, dt] \<Rightarrow> do {
          dt \<leftarrow> add dt (dt_bias self);
          Some (d_mlp, z0, x0, gate, hidden_states, tmap softplus dt)
        }
      | _ \<Rightarrow> None)
   }"

subsection \<open>\<^verbatim>\<open>slow_forward\<close>, step 2: the convolution\<close>

text \<open>
  Lines 287 to 294, the branch \<^verbatim>\<open>cache_params.seqlen_offset > 0\<close>.  The first component
  of the result is the cache after the branch, also when a later line raises.
\<close>

definition conv_step :: "Mamba2Mixer \<Rightarrow> Mamba2Cache \<Rightarrow> tensor \<Rightarrow> Mamba2Cache \<times> tensor option" where
  "conv_step self cache_params hidden_states =
     (case conv_states cache_params (layer_idx self) of
        None \<Rightarrow> (cache_params, None)
      | Some cached \<Rightarrow>
          (case do {
                  conv_state \<leftarrow> torch_roll cached;
                  conv_state \<leftarrow> setitem_last conv_state hidden_states;
                  written \<leftarrow> tensor_copy cached conv_state;
                  Some (conv_state, written)
                } of
             None \<Rightarrow> (cache_params, None)
           | Some (conv_state, written) \<Rightarrow>
               (cache_params\<lparr>conv_states := (conv_states cache_params)(layer_idx self \<mapsto> written)\<rparr>,
                do {
                  w \<leftarrow> (if 3 \<le> ndim (conv_weight (conv1d self))
                        then select 1 0 (conv_weight (conv1d self)) else None);
                  prod \<leftarrow> mul conv_state w;
                  let hidden_states = torch_sum prod;
                  hidden_states \<leftarrow>
                    (if use_conv_bias self
                     then (case conv_bias (conv1d self) of
                             None \<Rightarrow> None
                           | Some b \<Rightarrow> iadd hidden_states b)
                     else Some hidden_states);
                  let hidden_states = tmap (act self) hidden_states;
                  Some (unsqueeze (ndim hidden_states) hidden_states)
                })))"

text \<open>Lines 296 to 302, the branch of a cache with \<^verbatim>\<open>seqlen_offset\<close> not above 0.\<close>

definition conv_prefill :: "Mamba2Mixer \<Rightarrow> Mamba2Cache \<Rightarrow> tensor \<Rightarrow> Mamba2Cache \<times> tensor option" where
  "conv_prefill self cache_params hidden_states =
     (case do {
             hidden_states \<leftarrow> transpose12 hidden_states;
             conv_state \<leftarrow> F_pad_left hidden_states
                             (int (conv_kernel_size self) - int (last (shape hidden_states)));
             cached \<leftarrow> conv_states cache_params (layer_idx self);
             written \<leftarrow> tensor_copy cached conv_state;
             Some (hidden_states, written)
           } of
        None \<Rightarrow> (cache_params, None)
      | Some (hidden_states, written) \<Rightarrow>
          (cache_params\<lparr>conv_states := (conv_states cache_params)(layer_idx self \<mapsto> written)\<rparr>,
           do {
             y \<leftarrow> Conv1d_forward (conv1d self) hidden_states;
             y \<leftarrow> transpose12 y;
             slice_from1 (int (conv_kernel_size self) - 1) (tmap (act self) y)
           }))"

text \<open>Line 308, without a cache.\<close>

definition conv_nocache :: "Mamba2Mixer \<Rightarrow> tensor \<Rightarrow> tensor option" where
  "conv_nocache self hidden_states = do {
     x \<leftarrow> transpose12 hidden_states;
     y \<leftarrow> Conv1d_forward (conv1d self) x;
     y \<leftarrow> transpose12 y;
     slice_from1 (- (int (conv_kernel_size self) - 1)) (tmap (act self) y)
   }"

text \<open>
  Lines 283 to 308.  The result is the cache after the step and, when no line raised,
  \<open>(ssm_state, hidden_states)\<close>.
\<close>

definition conv_stage ::
  "Mamba2Mixer \<Rightarrow> nat \<Rightarrow> tensor \<Rightarrow> Mamba2Cache option
     \<Rightarrow> Mamba2Cache option \<times> (tensor \<times> tensor) option" where
  "conv_stage self batch_size hidden_states cache_params =
     (case cache_params of
        Some cache \<Rightarrow>
          (case ssm_states cache (layer_idx self) of
             None \<Rightarrow> (Some cache, None)
           | Some ssm_state \<Rightarrow>
               if seqlen_offset cache > 0
               then (case conv_step self cache hidden_states of
                       (cache', r) \<Rightarrow> (Some cache', map_option (Pair ssm_state) r))
               else (case conv_prefill self cache hidden_states of
                       (cache', r) \<Rightarrow> (Some cache', map_option (Pair ssm_state) r)))
      | None \<Rightarrow>
          (None,
           map_option (Pair (zeros [batch_size, intermediate_size self, ssm_state_size self]))
             (conv_nocache self hidden_states)))"

subsection \<open>\<^verbatim>\<open>slow_forward\<close>, step 3: the state space recurrence\<close>

text \<open>
  Lines 312 to 320: the split into \<open>hidden_states\<close>, \<open>B\<close> and \<open>C\<close> and the discretization.
  The result is \<open>(hidden_states, C, discrete_A, deltaB_u)\<close>.
\<close>

definition discretize ::
  "Mamba2Mixer \<Rightarrow> nat \<Rightarrow> nat \<Rightarrow> tensor \<Rightarrow> tensor \<Rightarrow> (tensor \<times> tensor \<times> tensor \<times> tensor) option" where
  "discretize self batch_size seq_len dt hidden_states = do {
     parts \<leftarrow> torch_split hidden_states
                [int (intermediate_size self), int (n_groups self * ssm_state_size self),
                 int (n_groups self * ssm_state_size self)];
     (case parts of
        [hidden_states, B, C] \<Rightarrow> do {
          let A = tmap (\<lambda>a. - exp a) (A_log self);
          dtA \<leftarrow> mul dt A;
          let discrete_A = tmap exp dtA;
          dt4 \<leftarrow> (if 3 \<le> ndim dt then Some (unsqueeze 3 dt) else None);
          Br \<leftarrow> torch_reshape B [int batch_size, int seq_len, 1,
                                  int (n_groups self * ssm_state_size self)];
          discrete_B \<leftarrow> mul dt4 Br;
          hr \<leftarrow> torch_reshape hidden_states
                  [int batch_size, int seq_len, int (num_heads self), - 1, 1];
          dB5 \<leftarrow> (if 4 \<le> ndim discrete_B then Some (unsqueeze 3 discrete_B) else None);
          deltaB_u \<leftarrow> mul hr dB5;
          deltaB_u \<leftarrow> torch_reshape deltaB_u
                        [int batch_size, int seq_len, int (num_heads self), - 1, int (head_dim self)];
          Some (hidden_states, C, discrete_A, deltaB_u)
        }
      | _ \<Rightarrow> None)
   }"

text \<open>The right-hand side of line 327: \<^verbatim>\<open>ssm_state * discrete_A[...] + deltaB_u[...]\<close>.\<close>

definition ssm_update :: "tensor \<Rightarrow> tensor \<Rightarrow> tensor \<Rightarrow> tensor option" where
  "ssm_update ssm_state dA dBu = do {
     decayed \<leftarrow> mul ssm_state dA;
     add decayed dBu
   }"

text \<open>
  Lines 326 to 329, the loop over \<^verbatim>\<open>range(seq_len)\<close>, with the list of the remaining
  values of \<open>i\<close>.  The result is the last \<open>ssm_state\<close> and the list \<open>scan_outputs\<close>.
\<close>

fun scan_loop ::
  "tensor \<Rightarrow> tensor \<Rightarrow> tensor \<Rightarrow> nat list \<Rightarrow> tensor \<Rightarrow> tensor list \<Rightarrow> (tensor \<times> tensor list) option" where
  "scan_loop discrete_A deltaB_u C [] ssm_state scan_outputs = Some (ssm_state, scan_outputs)"
| "scan_loop discrete_A deltaB_u C (i # rest) ssm_state scan_outputs = do {
     dA \<leftarrow> (if 3 \<le> ndim discrete_A then select 1 i discrete_A else None);
     dBu \<leftarrow> (if 4 \<le> ndim deltaB_u then select 1 i deltaB_u else None);
     ssm_state \<leftarrow> ssm_update ssm_state (unsqueeze 3 (unsqueeze 2 dA)) dBu;
     Ci \<leftarrow> (if 3 \<le> ndim C then select 1 i C else None);
     scan_output \<leftarrow> torch_matmul Ci ssm_state;
     scan_output \<leftarrow> (if 4 \<le> ndim scan_output then select 2 0 scan_output else None);
     scan_loop discrete_A deltaB_u C rest ssm_state (scan_outputs @ [scan_output])
   }"

text \<open>
  Lines 330 to 334: the outputs are stacked, the skip path \<open>D\<close> is added and the result is
  multiplied by the activated gate.
\<close>

definition gate_output ::
  "Mamba2Mixer \<Rightarrow> nat \<Rightarrow> nat \<Rightarrow> int \<Rightarrow> tensor \<Rightarrow> tensor \<Rightarrow> tensor \<Rightarrow> tensor \<Rightarrow> tensor list
     \<Rightarrow> tensor option" where
  "gate_output self batch_size seq_len d_mlp z0 x0 gate hidden_states scan_outputs = do {
     scan_output \<leftarrow> torch_stack scan_outputs;
     hr \<leftarrow> torch_reshape hidden_states [int batch_size, int seq_len, int (num_heads self), - 1];
     skip \<leftarrow> (if 1 \<le> ndim (D self) then mul hr (unsqueeze 2 (unsqueeze 0 (D self))) else None);
     scan_output \<leftarrow> add scan_output skip;
     gr \<leftarrow> torch_reshape (tmap (act self) gate)
             [int batch_size, int seq_len, int (num_heads self), - 1];
     scan_output \<leftarrow> mul scan_output gr;
     (if d_mlp > 0
      then do { zx \<leftarrow> mul (tmap silu z0) x0; torch_cat zx scan_output }
      else Some scan_output)
   }"

text \<open>Lines 312 to 334.  The result is \<open>(ssm_state, scan_output)\<close>.\<close>

definition ssm_stage ::
  "Mamba2Mixer \<Rightarrow> nat \<Rightarrow> nat \<Rightarrow> int \<Rightarrow> tensor \<Rightarrow> tensor \<Rightarrow> tensor \<Rightarrow> tensor \<Rightarrow> tensor \<Rightarrow> tensor
     \<Rightarrow> (tensor \<times> tensor) option" where
  "ssm_stage self batch_size seq_len d_mlp z0 x0 gate dt hidden_states ssm_state = do {
     (hidden_states, C, discrete_A, deltaB_u) \<leftarrow>
        discretize self batch_size seq_len dt hidden_states;
     (ssm_state, scan_outputs) \<leftarrow>
        scan_loop discrete_A deltaB_u C [0..<seq_len] ssm_state [];
     scan_output \<leftarrow>
        gate_output self batch_size seq_len d_mlp z0 x0 gate hidden_states scan_outputs;
     Some (ssm_state, scan_output)
   }"

subsection \<open>\<^verbatim>\<open>slow_forward\<close>\<close>

text \<open>Lines 335 and 336: the state is written back into the cache.\<close>

definition write_ssm_state ::
  "Mamba2Mixer \<Rightarrow> Mamba2Cache option \<Rightarrow> tensor \<Rightarrow> Mamba2Cache option option" where
  "write_ssm_state self cache_params ssm_state =
     (case cache_params of
        None \<Rightarrow> Some None
      | Some cache \<Rightarrow> do {
          cached \<leftarrow> ssm_states cache (layer_idx self);
          written \<leftarrow> tensor_copy cached ssm_state;
          Some (Some (cache\<lparr>ssm_states := (ssm_states cache)(layer_idx self \<mapsto> written)\<rparr>))
        })"

definition unpack_message :: string where
  "unpack_message = ''not enough values to unpack (expected 3)''"

text \<open>
  \<^verbatim>\<open>Mamba2Mixer.slow_forward\<close>.  The cache is mutated in place: the first component of
  the result is the cache after the call, whether the call returns or raises.
\<close>

definition slow_forward ::
  "Mamba2Mixer \<Rightarrow> tensor \<Rightarrow> Mamba2Cache option \<Rightarrow> Mamba2Cache option \<times> (error + tensor)" where
  "slow_forward self input_states cache_params =
     (case shape input_states of
        [batch_size, seq_len, uu] \<Rightarrow>
          (case slow_project self input_states seq_len of
             None \<Rightarrow> (cache_params, Inl RuntimeError)
           | Some (d_mlp, z0, x0, gate, hidden_states, dt) \<Rightarrow>
               (case conv_stage self batch_size hidden_states cache_params of
                  (cache_params, None) \<Rightarrow> (cache_params, Inl RuntimeError)
                | (cache_params, Some (ssm_state, hidden_states)) \<Rightarrow>
                    (case ssm_stage self batch_size seq_len d_mlp z0 x0 gate dt
                            hidden_states ssm_state of
                       None \<Rightarrow> (cache_params, Inl RuntimeError)
                     | Some (ssm_state, scan_output) \<Rightarrow>
                         (case write_ssm_state self cache_params ssm_state of
                            None \<Rightarrow> (cache_params, Inl RuntimeError)
                          | Some cache_params \<Rightarrow>
                              (cache_params,
                               case do { y \<leftarrow> transpose12 scan_output;
                                         Linear_forward (out_proj self) y } of
                                 None \<Rightarrow> Inl RuntimeError
                               | Some contextualized_states \<Rightarrow> Inr contextualized_states)))))
      | _ \<Rightarrow> (cache_params, Inl (ValueError unpack_message)))"

subsection \<open>\<^verbatim>\<open>cuda_kernels_forward\<close> and the choice of the path\<close>

text \<open>
  The module binds the kernels of \<^verbatim>\<open>mamba_ssm\<close> and \<^verbatim>\<open>causal_conv1d\<close> when these packages
  are installed; \<^verbatim>\<open>is_fast_path_available\<close> holds when all the names it lists are bound.
\<close>

record module_globals =
  is_mamba_ssm_available :: bool
  is_causal_conv1d_available :: bool

definition is_fast_path_available :: "module_globals \<Rightarrow> bool" where
  "is_fast_path_available g = (is_mamba_ssm_available g \<and> is_causal_conv1d_available g)"

text \<open>
  \<^verbatim>\<open>Mamba2Mixer.cuda_kernels_forward\<close>.  In training without a cache the body is
  \<^verbatim>\<open>pass\<close> and \<^verbatim>\<open>return out\<close> finds \<^verbatim>\<open>out\<close> unbound.  Otherwise the method calls
  \<^verbatim>\<open>rearrange\<close>, a name that the module never imports, before it reaches the kernel
  \<^verbatim>\<open>mamba_chunk_scan_combined\<close>, the normalization of line 263 and the projection of line
  264; the lookup raises \<^verbatim>\<open>NameError\<close>.
\<close>

definition cuda_kernels_forward ::
  "module_globals \<Rightarrow> bool \<Rightarrow> Mamba2Mixer \<Rightarrow> tensor \<Rightarrow> Mamba2Cache option \<Rightarrow> error + tensor" where
  "cuda_kernels_forward g training self hidden_states cache_params =
     (case Linear_forward (in_proj self) hidden_states of
        None \<Rightarrow> Inl RuntimeError
      | Some projected_states \<Rightarrow>
          if training \<and> cache_params = None then Inl (UnboundLocalError ''out'')
          else
            (case do {
                    parts \<leftarrow> torch_split projected_states
                               [int (intermediate_size self),
                                int (intermediate_size self)
                                  + 2 * int (n_groups self) * int (state_size self),
                                int (num_heads self)];
                    (case parts of
                       [gate, xBC, time_step] \<Rightarrow> do {
                         time_step \<leftarrow> add time_step (dt_bias self);
                         transpose12 xBC
                       }
                     | _ \<Rightarrow> None)
                  } of
               None \<Rightarrow> Inl RuntimeError
             | Some x \<Rightarrow>
                 if (if is_causal_conv1d_available g
                     then activation self \<notin> set [''silu'', ''swish''] else True)
                 then
                   (case do {
                           y \<leftarrow> Conv1d_forward (conv1d self) x;
                           y \<leftarrow> transpose12 y;
                           torch_split (tmap (act self) y)
                             [int (intermediate_size self),
                              int (n_groups self * state_size self),
                              int (n_groups self * state_size self)]
                         } of
                      None \<Rightarrow> Inl RuntimeError
                    | Some parts \<Rightarrow>
                        Inl (NameError (if is_mamba_ssm_available g then ''rearrange''
                                        else ''mamba_chunk_scan_combined'')))
                 else Inl (NameError ''rearrange'')))"

text \<open>\<^verbatim>\<open>Mamba2Mixer.forward\<close>.\<close>

definition Mamba2Mixer_forward ::
  "module_globals \<Rightarrow> bool \<Rightarrow> Mamba2Mixer \<Rightarrow> tensor \<Rightarrow> Mamba2Cache option
     \<Rightarrow> Mamba2Cache option \<times> (error + tensor)" where
  "Mamba2Mixer_forward g training self hidden_states cache_params =
     (if is_fast_path_available g
      then (cache_params, cuda_kernels_forward g training self hidden_states cache_params)
      else slow_forward self hidden_states cache_params)"

section \<open>The block and the model\<close>

record Mamba2Block =
  block_norm :: Mamba2RMSNorm
  mixer :: Mamba2Mixer

text \<open>\<^verbatim>\<open>Mamba2Block.forward\<close>.\<close>

definition Mamba2Block_forward ::
  "module_globals \<Rightarrow> bool \<Rightarrow> Mamba2Block \<Rightarrow> tensor \<Rightarrow> Mamba2Cache option
     \<Rightarrow> Mamba2Cache option \<times> (error + tensor)" where
  "Mamba2Block_forward g training self hidden_states cache_params =
     (case Mamba2RMSNorm_forward (block_norm self) hidden_states of
        None \<Rightarrow> (cache_params, Inl RuntimeError)
      | Some normed \<Rightarrow>
          (case Mamba2Mixer_forward g training (mixer self) normed cache_params of
             (cache_params, Inl e) \<Rightarrow> (cache_params, Inl e)
           | (cache_params, Inr mixed) \<Rightarrow>
               (cache_params,
                case add hidden_states mixed of
                  None \<Rightarrow> Inl RuntimeError
                | Some r \<Rightarrow> Inr r)))"

record Mamba2Model =
  config :: Mamba2Config
  embeddings :: tensor
  layers :: "Mamba2Block list"
  gradient_checkpointing :: bool
  training :: bool
  norm_f :: Mamba2RMSNorm

text \<open>
  What \<^verbatim>\<open>Mamba2Model.forward\<close> returns: \<^verbatim>\<open>Mamba2Output\<close>, or the tuple of the values that
  are not \<^verbatim>\<open>None\<close>.
\<close>

record Mamba2Output =
  last_hidden_state :: tensor
  cache_params_out :: "Mamba2Cache option"
  hidden_states_out :: "tensor list option"

datatype output_item =
    HiddenState tensor
  | CacheParams Mamba2Cache
  | AllHiddenStates "tensor list"

datatype model_output =
    ReturnTuple "output_item list"
  | ReturnDict Mamba2Output

text \<open>
  The loop over \<^verbatim>\<open>self.layers\<close> (lines 614 to 621).  With gradient checkpointing the block
  is called through \<^verbatim>\<open>_gradient_checkpointing_func\<close>, which computes the same forward
  pass.  \<open>all_hidden_states\<close> is \<open>None\<close> unless \<open>output_hidden_states\<close> is set.
\<close>

fun run_layers ::
  "module_globals \<Rightarrow> bool \<Rightarrow> Mamba2Block list \<Rightarrow> tensor \<Rightarrow> Mamba2Cache option
     \<Rightarrow> tensor list option \<Rightarrow> Mamba2Cache option \<times> (error + tensor \<times> tensor list option)" where
  "run_layers g is_training [] hidden_states cache_params all_hidden_states =
     (cache_params, Inr (hidden_states, all_hidden_states))"
| "run_layers g is_training (mixer_block # rest) hidden_states cache_params all_hidden_states =
     (case Mamba2Block_forward g is_training mixer_block hidden_states cache_params of
        (cache_params, Inl e) \<Rightarrow> (cache_params, Inl e)
      | (cache_params, Inr hidden_states) \<Rightarrow>
          run_layers g is_training rest hidden_states cache_params
            (map_option (\<lambda>hs. hs @ [hidden_states]) all_hidden_states))"

definition inputs_message :: string where
  "inputs_message =
     ''You cannot specify both input_ids and inputs_embeds at the same time, and must specify either one''"

text \<open>Line 593 and line 605: the value of \<open>use_cache\<close> that the forward pass works with.\<close>

definition effective_use_cache :: "Mamba2Model \<Rightarrow> bool option \<Rightarrow> bool" where
  "effective_use_cache self use_cache =
     (let use_cache = (case use_cache of
                         Some b \<Rightarrow> b
                       | None \<Rightarrow> (if training self then False else config_use_cache (config self)))
      in if gradient_checkpointing self \<and> training self \<and> use_cache then False else use_cache)"

text \<open>Lines 601 and 602: the embedding of \<open>input_ids\<close> when no \<open>inputs_embeds\<close> is given.\<close>

definition embed_inputs ::
  "Mamba2Model \<Rightarrow> nat list list option \<Rightarrow> tensor option \<Rightarrow> tensor option" where
  "embed_inputs self input_ids inputs_embeds =
     (case inputs_embeds of
        Some e \<Rightarrow> Some e
      | None \<Rightarrow>
          (case input_ids of
             Some ids \<Rightarrow> Embedding_forward (embeddings self) ids
           | None \<Rightarrow> None))"

text \<open>
  Lines 607 to 610: a cache is created when none is passed and \<open>use_cache\<close> is set
  (\<^verbatim>\<open>inputs_embeds.size(0)\<close> raises on a tensor without dimensions).
\<close>

definition create_cache ::
  "Mamba2Model \<Rightarrow> bool \<Rightarrow> tensor \<Rightarrow> Mamba2Cache option \<Rightarrow> Mamba2Cache option option" where
  "create_cache self use_cache inputs_embeds cache_params =
     (if cache_params = None \<and> use_cache
      then (if shape inputs_embeds = [] then None
            else Some (Some (Mamba2Cache_init (config self) (hd (shape inputs_embeds)))))
      else Some cache_params)"

text \<open>
  Lines 623 and 624: \<^verbatim>\<open>cache_params.seqlen_offset += inputs_embeds.shape[1]\<close> under
  \<^verbatim>\<open>if use_cache\<close>.
\<close>

definition update_seqlen_offset ::
  "bool \<Rightarrow> tensor \<Rightarrow> Mamba2Cache option \<Rightarrow> Mamba2Cache option option" where
  "update_seqlen_offset use_cache inputs_embeds cache_params =
     (if use_cache
      then (case cache_params of
              None \<Rightarrow> None
            | Some cache \<Rightarrow>
                if 2 \<le> ndim inputs_embeds
                then Some (Some (cache\<lparr>seqlen_offset :=
                       seqlen_offset cache + int (shape inputs_embeds ! 1)\<rparr>))
                else None)
      else Some cache_params)"

text \<open>Lines 631 to 638: the value that is returned.\<close>

definition make_output ::
  "bool \<Rightarrow> bool \<Rightarrow> tensor \<Rightarrow> Mamba2Cache option \<Rightarrow> tensor list option \<Rightarrow> model_output" where
  "make_output return_dict use_cache hidden_states cache_params all_hidden_states =
     (if return_dict
      then ReturnDict \<lparr>last_hidden_state = hidden_states,
                       cache_params_out = (if use_cache then cache_params else None),
                       hidden_states_out = all_hidden_states\<rparr>
      else ReturnTuple
             (HiddenState hidden_states
              # (case cache_params of None \<Rightarrow> [] | Some cache \<Rightarrow> [CacheParams cache])
              @ (case all_hidden_states of None \<Rightarrow> [] | Some hs \<Rightarrow> [AllHiddenStates hs])))"

text \<open>
  \<^verbatim>\<open>Mamba2Model.forward\<close>.  The first component of the result is the object that
  \<open>cache_params\<close> names when the call returns or raises: the cache of the caller, mutated in
  place, or the cache that line 608 creates.
\<close>

definition Mamba2Model_forward ::
  "module_globals \<Rightarrow> Mamba2Model \<Rightarrow> nat list list option \<Rightarrow> tensor option \<Rightarrow> Mamba2Cache option
     \<Rightarrow> bool option \<Rightarrow> bool option \<Rightarrow> bool option
     \<Rightarrow> Mamba2Cache option \<times> (error + model_output)" where
  "Mamba2Model_forward g self input_ids inputs_embeds cache_params use_cache
       output_hidden_states return_dict =
     (let output_hidden_states =
            (case output_hidden_states of
               Some b \<Rightarrow> b
             | None \<Rightarrow> config_output_hidden_states (config self));
          use_cache = effective_use_cache self use_cache;
          return_dict =
            (case return_dict of Some b \<Rightarrow> b | None \<Rightarrow> config_use_return_dict (config self))
      in
      if (input_ids = None) \<noteq> (inputs_embeds \<noteq> None)
      then (cache_params, Inl (ValueError inputs_message))
      else
        (case embed_inputs self input_ids inputs_embeds of
           None \<Rightarrow> (cache_params, Inl RuntimeError)
         | Some inputs_embeds \<Rightarrow>
             (case create_cache self use_cache inputs_embeds cache_params of
                None \<Rightarrow> (cache_params, Inl RuntimeError)
              | Some cache_params \<Rightarrow>
                  (case run_layers g (training self) (layers self) inputs_embeds cache_params
                          (if output_hidden_states then Some [] else None) of
                     (cache_params, Inl e) \<Rightarrow> (cache_params, Inl e)
                   | (cache_params, Inr (hidden_states, all_hidden_states)) \<Rightarrow>
                       (case update_seqlen_offset use_cache inputs_embeds cache_params of
                          None \<Rightarrow> (cache_params, Inl RuntimeError)
                        | Some cache_params \<Rightarrow>
                            (case Mamba2RMSNorm_forward (norm_f self) hidden_states of
                               None \<Rightarrow> (cache_params, Inl RuntimeError)
                             | Some hidden_states \<Rightarrow>
                                 (cache_params,
                                  Inr (make_output return_dict use_cache hidden_states
                                         cache_params
                                         (map_option (\<lambda>hs. hs @ [hidden_states])
                                            all_hidden_states)))))))))"

section \<open>Calls on one cache\<close>

text \<open>
  The shapes of the tensors of a cache, layer by layer, and the relation between the cache
  before and after a step that keeps these shapes and \<open>seqlen_offset\<close>.
\<close>

definition cache_shapes :: "Mamba2Cache \<Rightarrow> (nat \<rightharpoonup> nat list) \<times> (nat \<rightharpoonup> nat list)" where
  "cache_shapes cache =
     (map_option shape \<circ> conv_states cache, map_option shape \<circ> ssm_states cache)"

definition preserved :: "Mamba2Cache option \<Rightarrow> Mamba2Cache option \<Rightarrow> bool" where
  "preserved cp cp' =
     (case cp of
        None \<Rightarrow> cp' = None
      | Some c \<Rightarrow>
          (case cp' of
             None \<Rightarrow> False
           | Some c' \<Rightarrow> cache_shapes c' = cache_shapes c \<and> seqlen_offset c' = seqlen_offset c))"

text \<open>
  The sequence length of the input of a forward call, and a generation session: forward
  calls, each with its own arguments, on the cache that the caller carries from one call
  to the next.
\<close>

definition input_seq_len :: "nat list list option \<Rightarrow> tensor option \<Rightarrow> nat" where
  "input_seq_len input_ids inputs_embeds =
     (case inputs_embeds of
        Some e \<Rightarrow> shape e ! 1
      | None \<Rightarrow> (case input_ids of Some rows \<Rightarrow> length (hd rows) | None \<Rightarrow> 0))"

type_synonym forward_args =
  "nat list list option \<times> tensor option \<times> bool option \<times> bool option \<times> bool option"

fun session :: "module_globals \<Rightarrow> Mamba2Model \<Rightarrow> forward_args list \<Rightarrow> Mamba2Cache \<Rightarrow> Mamba2Cache" where
  "session g m [] cache = cache"
| "session g m ((input_ids, inputs_embeds, use_cache, output_hidden_states, return_dict) # calls) cache =
     (case fst (Mamba2Model_forward g m input_ids inputs_embeds (Some cache) use_cache
                  output_hidden_states return_dict) of
        Some cache' \<Rightarrow> session g m calls cache'
      | None \<Rightarrow> cache)"

section \<open>The formulas of the specification\<close>

text \<open>
  The recurrence as the specification words it (its section 4.1, steps 1 to 3), over the
  parameters of its data model: \<open>step_size[b, t, h]\<close>, \<open>decay_rate[h]\<close>,
  \<open>input_gate[b, t, g, n]\<close>, \<open>output_readout[b, t, g, n]\<close> and \<open>input[b, t, h, p]\<close>, with the
  group \<open>g(h) = h // heads_per_group\<close> and a state that starts at zero.  These definitions
  are not taken from the code; the code is compared with them.
\<close>

record ssm_inputs =
  step_size :: "nat \<Rightarrow> nat \<Rightarrow> nat \<Rightarrow> real"
  decay_rate :: "nat \<Rightarrow> real"
  input_gate :: "nat \<Rightarrow> nat \<Rightarrow> nat \<Rightarrow> nat \<Rightarrow> real"
  output_readout :: "nat \<Rightarrow> nat \<Rightarrow> nat \<Rightarrow> nat \<Rightarrow> real"
  ssm_input :: "nat \<Rightarrow> nat \<Rightarrow> nat \<Rightarrow> nat \<Rightarrow> real"
  heads_per_group :: nat
  state_dim :: nat

definition spec_discrete_decay :: "ssm_inputs \<Rightarrow> nat \<Rightarrow> nat \<Rightarrow> nat \<Rightarrow> real" where
  "spec_discrete_decay x b t h = exp (step_size x b t h * decay_rate x h)"

definition spec_inject :: "ssm_inputs \<Rightarrow> nat \<Rightarrow> nat \<Rightarrow> nat \<Rightarrow> nat \<Rightarrow> nat \<Rightarrow> real" where
  "spec_inject x b t h p n =
     step_size x b t h * input_gate x b t (h div heads_per_group x) n * ssm_input x b t h p"

fun spec_state :: "ssm_inputs \<Rightarrow> nat \<Rightarrow> nat \<Rightarrow> nat \<Rightarrow> nat \<Rightarrow> nat \<Rightarrow> real" where
  "spec_state x 0 b h p n = 0"
| "spec_state x (Suc t) b h p n =
     spec_state x t b h p n * spec_discrete_decay x b t h + spec_inject x b t h p n"

definition spec_readout :: "ssm_inputs \<Rightarrow> nat \<Rightarrow> nat \<Rightarrow> nat \<Rightarrow> nat \<Rightarrow> real" where
  "spec_readout x b t h p =
     (\<Sum>n\<leftarrow>[0..<state_dim x].
        output_readout x b t (h div heads_per_group x) n * spec_state x (Suc t) b h p n)"

text \<open>
  The parameters that the specification's formulas read from the tensors of
  \<^verbatim>\<open>slow_forward\<close>: \<open>dt\<close> after the softplus, and the output of the convolution, whose
  last dimension holds the input (\<open>num_heads * head_dim\<close> entries, head by head), then
  \<open>B\<close> and then \<open>C\<close> (\<open>n_groups * ssm_state_size\<close> entries each, group by group).
\<close>

definition ssm_inputs_of :: "Mamba2Mixer \<Rightarrow> tensor \<Rightarrow> tensor \<Rightarrow> ssm_inputs" where
  "ssm_inputs_of self dt hidden_states =
     \<lparr>step_size = (\<lambda>b t h. entry dt [b, t, h]),
      decay_rate = (\<lambda>h. - exp (entry (A_log self) [h])),
      input_gate = (\<lambda>b t g n.
         entry hidden_states [b, t, intermediate_size self + g * ssm_state_size self + n]),
      output_readout = (\<lambda>b t g n.
         entry hidden_states
           [b, t, intermediate_size self + n_groups self * ssm_state_size self
                  + g * ssm_state_size self + n]),
      ssm_input = (\<lambda>b t h p. entry hidden_states [b, t, h * head_dim self + p]),
      heads_per_group = num_heads self div n_groups self,
      state_dim = ssm_state_size self\<rparr>"

text \<open>
  Step 4 of section 4.1, as lines 259 to 263 of \<^verbatim>\<open>cuda_kernels_forward\<close> write it: the
  readout plus \<open>D\<close> times the input, flattened across the heads and passed with the gate
  through the gated normalization.
\<close>

definition spec_final_output ::
  "Mamba2Mixer \<Rightarrow> nat \<Rightarrow> nat \<Rightarrow> tensor \<Rightarrow> tensor \<Rightarrow> tensor list \<Rightarrow> tensor option" where
  "spec_final_output self batch_size seq_len gate hidden_states scan_outputs = do {
     readout \<leftarrow> torch_stack scan_outputs;
     hr \<leftarrow> torch_reshape hidden_states [int batch_size, int seq_len, int (num_heads self), - 1];
     skip \<leftarrow> mul hr (unsqueeze 2 (unsqueeze 0 (D self)));
     y \<leftarrow> add readout skip;
     y \<leftarrow> torch_reshape y [int batch_size, int seq_len, - 1];
     MambaRMSNormGated_forward (mixer_norm self) y (Some gate)
   }"

text \<open>
  Section 4.3 of the specification: the activation is normalized to unit root mean square,
  with the epsilon floor, and multiplied by the gate through \<open>silu\<close> after the
  normalization (\<open>norm_before_gate\<close>) or before it; the result is scaled by the weight.
\<close>

definition rms_normalize :: "real \<Rightarrow> tensor \<Rightarrow> tensor option" where
  "rms_normalize eps x =
     mul x (tmap (\<lambda>v. rsqrt (v + eps)) (mean_keepdim (tmap (\<lambda>x. x\<^sup>2) x)))"

definition spec_gated_norm :: "MambaRMSNormGated \<Rightarrow> tensor \<Rightarrow> tensor \<Rightarrow> tensor option" where
  "spec_gated_norm self x gate = do {
     y \<leftarrow> (if norm_before_gate self
           then do { n \<leftarrow> rms_normalize (variance_epsilon self) x; mul n (tmap silu gate) }
           else do { g \<leftarrow> mul x (tmap silu gate); rms_normalize (variance_epsilon self) g });
     mul (weight self) y
   }"

section \<open>Concrete configurations and inputs\<close>

text \<open>
  The module without the optional kernel packages, and an input of one token for a batch of
  one sequence.
\<close>

definition slow_path :: module_globals where
  "slow_path = \<lparr>is_mamba_ssm_available = False, is_causal_conv1d_available = False\<rparr>"

definition one_token :: tensor where
  "one_token = tabulate [1, 1, 1] (\<lambda>idx. 1)"

text \<open>
  A recurrent state as the cache holds it, of shape \<open>[batch, n_groups * state_size, head_dim]\<close>,
  and an input injection \<^verbatim>\<open>deltaB_u[:, i]\<close> of shape \<open>[batch, num_heads, ., head_dim]\<close>.
\<close>

definition prior_state :: tensor where
  "prior_state = tabulate [1, 2, 2] (\<lambda>idx. 5 + real (idx ! 1) + real (idx ! 2))"

definition injection :: tensor where
  "injection = tabulate [1, 1, 2, 2] (\<lambda>idx. 1 + 2 * real (idx ! 2) + real (idx ! 3))"

text \<open>
  A configuration with one head: \<open>hidden_size = 1\<close>, \<open>num_heads = 1\<close>, \<open>head_dim = 2\<close>,
  \<open>state_size = 2\<close>, \<open>n_groups = 1\<close>, \<open>conv_kernel = 2\<close> and
  \<open>intermediate_size = num_heads * head_dim = 2\<close>, the mixer of its layer 0 with the
  activation \<open>silu\<close>, and the cache that \<^verbatim>\<open>Mamba2Cache.__init__\<close> allocates for a batch of
  one sequence.  The convolution has \<open>2 + 2 * 1 * 2 = 6\<close> channels and \<open>in_proj\<close> has
  \<open>2 * 2 + 2 * 1 * 2 + 1 = 9\<close> outputs.
\<close>

definition config_ex :: Mamba2Config where
  "config_ex =
     \<lparr>config_hidden_size = 1, config_num_heads = 1, config_head_dim = 2, config_state_size = 2,
      config_n_groups = 1, config_conv_kernel = 2, config_intermediate_size = 2,
      config_num_hidden_layers = 1, config_use_cache = True,
      config_output_hidden_states = False, config_use_return_dict = True\<rparr>"

definition mixer_ex :: Mamba2Mixer where
  "mixer_ex =
     \<lparr>num_heads = 1, hidden_size = 1, ssm_state_size = 2, conv_kernel_size = 2,
      intermediate_size = 2, layer_idx = 0, use_conv_bias = False, activation = ''silu'',
      act = silu, n_groups = 1, state_size = 2, head_dim = 2,
      conv1d = \<lparr>conv_weight = tabulate [6, 1, 2] (\<lambda>idx. 1), conv_bias = None, conv_padding = 1\<rparr>,
      in_proj = \<lparr>lin_weight = tabulate [9, 1] (\<lambda>idx. 1), lin_bias = None\<rparr>,
      dt_bias = tabulate [1] (\<lambda>idx. 1),
      A_log = tabulate [1] (\<lambda>idx. 0),
      mixer_norm = \<lparr>weight = tabulate [2] (\<lambda>idx. 1), variance_epsilon = 1 / 100000,
                    norm_before_gate = True\<rparr>,
      D = tabulate [1] (\<lambda>idx. 1),
      out_proj = \<lparr>lin_weight = tabulate [1, 2] (\<lambda>idx. 1), lin_bias = None\<rparr>\<rparr>"

definition cache_ex :: Mamba2Cache where
  "cache_ex = Mamba2Cache_init config_ex 1"

text \<open>
  A model with this mixer as its one layer, over a vocabulary of one token, in evaluation
  mode; an \<open>inputs_embeds\<close> of two dimensions; and a forward call with \<open>input_ids\<close> of
  one sequence of one token and \<open>use_cache = True\<close>.
\<close>

definition block_ex :: Mamba2Block where
  "block_ex =
     \<lparr>block_norm = \<lparr>weight = tabulate [1] (\<lambda>idx. 1), variance_epsilon = 1 / 100000\<rparr>,
      mixer = mixer_ex\<rparr>"

definition model_one_layer :: Mamba2Model where
  "model_one_layer =
     \<lparr>config = config_ex, embeddings = tabulate [1, 1] (\<lambda>idx. 1), layers = [block_ex],
      gradient_checkpointing = False, training = False,
      norm_f = \<lparr>weight = tabulate [1] (\<lambda>idx. 1), variance_epsilon = 1 / 100000\<rparr>\<rparr>"

definition embeds_2d :: tensor where
  "embeds_2d = tabulate [1, 1] (\<lambda>idx. 1)"

definition call_one_token :: forward_args where
  "call_one_token = (Some [[0]], None, Some True, None, None)"

text \<open>
  The new frames of a batch of two sequences; an output of the convolution for one step
  with the input \<open>[1, 0]\<close>, \<open>B = [0, 1]\<close> and \<open>C = [0, 1]\<close>, and a step size of 1.
\<close>

definition frames_batch2 :: tensor where
  "frames_batch2 = tabulate [2, 1, 6] (\<lambda>idx. 1)"

definition ssm_in :: tensor where
  "ssm_in = tabulate [1, 1, 6] (\<lambda>idx. [1, 0, 0, 1, 0, 1] ! (idx ! 2))"

definition dt_ex :: tensor where
  "dt_ex = tabulate [1, 1, 1] (\<lambda>idx. 1)"

text \<open>
  Two inputs of the convolution with two time steps: they agree at step 0 and differ at
  step 1, in channel 0.
\<close>

definition conv_in_a :: tensor where
  "conv_in_a = zeros [1, 2, 6]"

definition conv_in_b :: tensor where
  "conv_in_b = tabulate [1, 2, 6] (\<lambda>idx. if idx = [0, 1, 0] then 1 else 0)"

text \<open>
  One step before the gate: a readout of zero, the input \<open>[3, 4]\<close>, the gate \<open>[1, 1]\<close>, and
  the empty \<open>z0\<close> and \<open>x0\<close> of \<open>d_mlp = 0\<close>.
\<close>

definition scan_ex :: tensor where
  "scan_ex = zeros [1, 1, 2]"

definition hidden_ex :: tensor where
  "hidden_ex = tabulate [1, 1, 2] (\<lambda>idx. [3, 4] ! (idx ! 2))"

definition gate_ex :: tensor where
  "gate_ex = tabulate [1, 1, 2] (\<lambda>idx. 1)"

definition empty_ex :: tensor where
  "empty_ex = zeros [1, 1, 0]"

text \<open>
  A gated normalization over one channel with \<open>norm_before_gate = False\<close> and the
  default \<open>eps = 1e-6\<close> of the class, an input of \<open>0.001\<close> and a gate of 1.
\<close>

definition norm_gate_first :: MambaRMSNormGated where
  "norm_gate_first =
     \<lparr>weight = tabulate [1] (\<lambda>idx. 1), variance_epsilon = 1 / 1000000, norm_before_gate = False\<rparr>"

definition small_x :: tensor where
  "small_x = tabulate [1, 1, 1] (\<lambda>idx. 1 / 1000)"

definition gate_one :: tensor where
  "gate_one = tabulate [1, 1, 1] (\<lambda>idx. 1)"

section \<open>Properties of tensors\<close>

lemma shape_tabulate [simp]: "shape (tabulate s f) = s"
  by (simp add: tabulate_def)

lemma length_indices: "length (indices s) = prod_list s"
  by (induction s) (simp_all add: length_concat comp_def sum_list_triv)

lemma concat_nth_uniform:
  "\<forall>xs\<in>set xss. length xs = m \<Longrightarrow> i < length xss \<Longrightarrow> j < m \<Longrightarrow>
   concat xss ! (i * m + j) = xss ! i ! j"
proof (induction xss arbitrary: i)
  case Nil
  then show ?case by simp
next
  case (Cons xs xss)
  show ?case
  proof (cases i)
    case 0
    with Cons.prems show ?thesis by (simp add: nth_append)
  next
    case (Suc i')
    with Cons.prems have "concat xss ! (i' * m + j) = xss ! i' ! j"
      by (intro Cons.IH) auto
    moreover have "length xs = m" using Cons.prems by simp
    ultimately show ?thesis using Suc by (simp add: nth_append)
  qed
qed

lemma ravel_less: "valid_index s idx \<Longrightarrow> ravel s idx < prod_list s"
proof (induction s idx rule: ravel.induct)
  case (1 n s i js)
  then have i: "i < n" and r: "ravel s js < prod_list s"
    by (simp_all add: valid_index_def)
  have "i * prod_list s + ravel s js < Suc i * prod_list s" using r by simp
  also have "\<dots> \<le> n * prod_list s" using i by (intro mult_le_mono1) simp
  finally show ?case by simp
qed (simp_all add: valid_index_def)

lemma indices_nth: "valid_index s idx \<Longrightarrow> indices s ! ravel s idx = idx"
proof (induction s idx rule: ravel.induct)
  case (1 n s i js)
  then have i: "i < n" and v: "valid_index s js"
    by (simp_all add: valid_index_def)
  let ?xss = "map (\<lambda>i. map ((#) i) (indices s)) [0..<n]"
  have "concat ?xss ! (i * prod_list s + ravel s js) = ?xss ! i ! ravel s js"
    using i ravel_less[OF v] by (intro concat_nth_uniform) (auto simp: length_indices)
  also have "\<dots> = i # js"
    using i ravel_less[OF v] 1(1)[OF v] by (simp add: length_indices)
  finally show ?case by simp
qed (simp_all add: valid_index_def)

lemma entry_tabulate [simp]: "valid_index s idx \<Longrightarrow> entry (tabulate s f) idx = f idx"
  by (simp add: entry_def tabulate_def ravel_less length_indices indices_nth)

lemma set_indices: "set (indices s) = {idx. valid_index s idx}"
proof (induction s)
  case Nil
  show ?case by (auto simp: valid_index_def)
next
  case (Cons n s)
  show ?case
  proof (intro set_eqI iffI)
    fix idx assume "idx \<in> set (indices (n # s))"
    then show "idx \<in> {idx. valid_index (n # s) idx}"
      using Cons by (auto simp: valid_index_def)
  next
    fix idx assume "idx \<in> {idx. valid_index (n # s) idx}"
    then obtain i js where "idx = i # js" "i < n" "valid_index s js"
      by (cases idx) (auto simp: valid_index_def)
    then show "idx \<in> set (indices (n # s))"
      using Cons by auto
  qed
qed

lemma tabulate_cong:
  "(\<And>idx. valid_index s idx \<Longrightarrow> f idx = g idx) \<Longrightarrow> tabulate s f = tabulate s g"
  by (simp add: tabulate_def set_indices)

lemma valid_index_simps [simp]:
  "valid_index [] [] = True"
  "valid_index (n # s) (i # idx) = (i < n \<and> valid_index s idx)"
  "valid_index [] (i # idx) = False"
  "valid_index (n # s) [] = False"
  by (simp_all add: valid_index_def)

subsection \<open>Broadcast indices are in range\<close>

lemma broadcast_rev_Cons:
  assumes "broadcast_rev (x # xs) (y # ys) = Some rs"
  obtains rs' where "broadcast_rev xs ys = Some rs'"
    and "rs = (if x = y \<or> y = 1 then x else y) # rs'"
    and "x = y \<or> y = 1 \<or> x = 1"
  using assms
  by (cases "x = y \<or> y = 1"; cases "x = 1"; cases "broadcast_rev xs ys") auto

lemma broadcast_rev_length:
  "broadcast_rev xs ys = Some rs \<Longrightarrow> length rs = max (length xs) (length ys)"
proof (induction xs ys arbitrary: rs rule: broadcast_rev.induct)
  case (1 ys)
  then show ?case by simp
next
  case (2 v va)
  then show ?case by simp
next
  case (3 x xs y ys)
  from 3(3) obtain rs' where rs: "broadcast_rev xs ys = Some rs'"
      "rs = (if x = y \<or> y = 1 then x else y) # rs'" "x = y \<or> y = 1 \<or> x = 1"
    by (rule broadcast_rev_Cons)
  have "length rs' = max (length xs) (length ys)"
  proof (cases "x = y \<or> y = 1")
    case True
    from 3(1)[OF True rs(1)] show ?thesis .
  next
    case False
    with rs(3) have "x = 1" by blast
    from 3(2)[OF False this rs(1)] show ?thesis .
  qed
  with rs(2) show ?case by simp
qed

lemma map2_valid_self:
  fixes js xs :: "nat list"
  shows "list_all2 (<) js xs \<Longrightarrow>
    list_all2 (<) (map2 (\<lambda>n i. if n = 1 then 0 else i) xs js) xs"
  by (induction js xs rule: list_all2_induct) simp_all

lemma broadcast_rev_valid_left:
  "broadcast_rev xs ys = Some rs \<Longrightarrow> list_all2 (<) js rs \<Longrightarrow>
   list_all2 (<) (map2 (\<lambda>n i. if n = 1 then 0 else i) xs js) xs"
proof (induction xs ys arbitrary: rs js rule: broadcast_rev.induct)
  case (1 ys)
  then show ?case by simp
next
  case (2 v va)
  then show ?case using map2_valid_self[of js rs] by simp
next
  case (3 x xs y ys)
  from 3(3) obtain rs' where rs: "broadcast_rev xs ys = Some rs'"
      "rs = (if x = y \<or> y = 1 then x else y) # rs'" "x = y \<or> y = 1 \<or> x = 1"
    by (rule broadcast_rev_Cons)
  from 3(4) rs(2) obtain j js' where js: "js = j # js'"
      "j < (if x = y \<or> y = 1 then x else y)" "list_all2 (<) js' rs'"
    by (cases js) simp_all
  have ih: "list_all2 (<) (map2 (\<lambda>n i. if n = 1 then 0 else i) xs js') xs"
  proof (cases "x = y \<or> y = 1")
    case True
    from 3(1)[OF True rs(1) js(3)] show ?thesis .
  next
    case False
    with rs(3) have "x = 1" by blast
    from 3(2)[OF False this rs(1) js(3)] show ?thesis .
  qed
  have "(if x = 1 then 0 else j) < x"
  proof (cases "x = 1")
    case True
    then show ?thesis by simp
  next
    case False
    with rs(3) have "x = y \<or> y = 1" by blast
    with js(2) False show ?thesis by simp
  qed
  with ih js(1) show ?case by simp
qed

lemma broadcast_rev_valid_right:
  "broadcast_rev xs ys = Some rs \<Longrightarrow> list_all2 (<) js rs \<Longrightarrow>
   list_all2 (<) (map2 (\<lambda>n i. if n = 1 then 0 else i) ys js) ys"
proof (induction xs ys arbitrary: rs js rule: broadcast_rev.induct)
  case (1 ys)
  then show ?case using map2_valid_self[of js rs] by simp
next
  case (2 v va)
  then show ?case by simp
next
  case (3 x xs y ys)
  from 3(3) obtain rs' where rs: "broadcast_rev xs ys = Some rs'"
      "rs = (if x = y \<or> y = 1 then x else y) # rs'" "x = y \<or> y = 1 \<or> x = 1"
    by (rule broadcast_rev_Cons)
  from 3(4) rs(2) obtain j js' where js: "js = j # js'"
      "j < (if x = y \<or> y = 1 then x else y)" "list_all2 (<) js' rs'"
    by (cases js) simp_all
  have ih: "list_all2 (<) (map2 (\<lambda>n i. if n = 1 then 0 else i) ys js') ys"
  proof (cases "x = y \<or> y = 1")
    case True
    from 3(1)[OF True rs(1) js(3)] show ?thesis .
  next
    case False
    with rs(3) have "x = 1" by blast
    from 3(2)[OF False this rs(1) js(3)] show ?thesis .
  qed
  have "(if y = 1 then 0 else j) < y"
  proof (cases "y = 1")
    case True
    then show ?thesis by simp
  next
    case False
    with js(2) show ?thesis by (cases "x = y") simp_all
  qed
  with ih js(1) show ?case by simp
qed

lemma zip_take_length: "zip xs (take (length xs) ys) = zip xs ys"
proof (induction xs arbitrary: ys)
  case Nil
  show ?case by simp
next
  case (Cons x xs)
  then show ?case by (cases ys) simp_all
qed

lemma rev_bc_index:
  assumes "length s \<le> length idx"
  shows "rev (bc_index s idx) = map2 (\<lambda>n i. if n = 1 then 0 else i) (rev s) (rev idx)"
proof -
  let ?d = "drop (length idx - length s) idx"
  have len: "length s = length ?d" using assms by simp
  have "rev (bc_index s idx) = map (\<lambda>(n, i). if n = 1 then 0 else i) (rev (zip s ?d))"
    unfolding bc_index_def by (rule rev_map)
  also have "rev (zip s ?d) = zip (rev s) (rev ?d)"
    by (rule zip_rev[OF len, symmetric])
  also have "rev ?d = take (length (rev s)) (rev idx)"
    unfolding rev_drop using assms by simp
  also have "zip (rev s) (take (length (rev s)) (rev idx)) = zip (rev s) (rev idx)"
    by (rule zip_take_length)
  finally show ?thesis .
qed

lemma bc_index_valid_left:
  assumes "broadcast_shapes a b = Some r" "valid_index r idx"
  shows "valid_index a (bc_index a idx)"
proof -
  from assms(1) obtain rr where rr: "broadcast_rev (rev a) (rev b) = Some rr" "r = rev rr"
    by (auto simp: broadcast_shapes_def)
  from assms(2) rr have v: "list_all2 (<) (rev idx) rr"
    by (simp add: valid_index_def list_all2_rev1)
  have "length a \<le> length idx"
    using broadcast_rev_length[OF rr(1)] list_all2_lengthD[OF v] by simp
  from rev_bc_index[OF this] broadcast_rev_valid_left[OF rr(1) v]
  have "list_all2 (<) (rev (bc_index a idx)) (rev a)" by simp
  then show ?thesis by (simp add: valid_index_def list_all2_rev)
qed

lemma bc_index_valid_right:
  assumes "broadcast_shapes a b = Some r" "valid_index r idx"
  shows "valid_index b (bc_index b idx)"
proof -
  from assms(1) obtain rr where rr: "broadcast_rev (rev a) (rev b) = Some rr" "r = rev rr"
    by (auto simp: broadcast_shapes_def)
  from assms(2) rr have v: "list_all2 (<) (rev idx) rr"
    by (simp add: valid_index_def list_all2_rev1)
  have "length b \<le> length idx"
    using broadcast_rev_length[OF rr(1)] list_all2_lengthD[OF v] by simp
  from rev_bc_index[OF this] broadcast_rev_valid_right[OF rr(1) v]
  have "list_all2 (<) (rev (bc_index b idx)) (rev b)" by simp
  then show ?thesis by (simp add: valid_index_def list_all2_rev)
qed

lemma map2_same:
  fixes idx s :: "nat list"
  shows "list_all2 (<) idx s \<Longrightarrow> map2 (\<lambda>n i. if n = 1 then 0 else i) s idx = idx"
  by (induction idx s rule: list_all2_induct) auto

lemma bc_index_same:
  assumes "valid_index s idx"
  shows "bc_index s idx = idx"
proof -
  from assms have "length idx = length s"
    by (simp add: valid_index_def list_all2_lengthD)
  then have "bc_index s idx = map2 (\<lambda>n i. if n = 1 then 0 else i) s idx"
    by (simp add: bc_index_def)
  with assms map2_same[of idx s] show ?thesis by (simp add: valid_index_def)
qed

lemma valid_index3:
  "valid_index [a, b, c] idx \<longleftrightarrow> (\<exists>i j k. idx = [i, j, k] \<and> i < a \<and> j < b \<and> k < c)"
  by (auto simp: valid_index_def list_all2_Cons2)

lemma broadcast_rev_same: "broadcast_rev r r = Some r"
  by (induction r) simp_all

lemma copy_same_shape:
  "shape dst = s \<Longrightarrow> tensor_copy dst (tabulate s f) = Some (tabulate s f)"
proof -
  assume s: "shape dst = s"
  have b: "broadcast_shapes s s = Some s"
    by (simp add: broadcast_shapes_def broadcast_rev_same)
  have "tabulate s (\<lambda>idx. entry (tabulate s f) (bc_index s idx)) = tabulate s f"
    by (rule tabulate_cong) (simp add: bc_index_same)
  with s b show ?thesis by (simp add: tensor_copy_def expand_def)
qed

lemma binop_ndim: "binop f a b = Some r \<Longrightarrow> ndim r = max (ndim a) (ndim b)"
  by (auto simp: binop_def broadcast_shapes_def ndim_def split: option.splits
      dest: broadcast_rev_length)

lemma ndim_unsqueeze: "ndim (unsqueeze d t) = Suc (ndim t)"
  by (simp add: unsqueeze_def ndim_def)

lemma ndim_select: "select d i t = Some r \<Longrightarrow> Suc (ndim r) = ndim t"
  by (auto simp: select_def ndim_def split: if_splits)

lemma tensor_copy_ndim:
  assumes "tensor_copy dst src = Some t"
  shows "ndim src \<le> ndim dst"
proof -
  from assms obtain z where z: "broadcast_rev (rev (shape src)) (rev (shape dst)) = Some z"
      "rev z = shape dst"
    by (auto simp: tensor_copy_def expand_def broadcast_shapes_def split: if_splits)
  from broadcast_rev_length[OF z(1)] have "length (shape src) \<le> length z" by simp
  also from z(2) have "length z = length (shape dst)" by (metis length_rev)
  finally show ?thesis by (simp add: ndim_def)
qed

lemma broadcast_keepdim: "broadcast_shapes (s @ [k]) (s @ [1]) = Some (s @ [k])"
  by (simp add: broadcast_shapes_def broadcast_rev_same)

lemma broadcast_vector:
  assumes "broadcast_shapes [n] s = Some [b, l, u]"
  shows "\<exists>k. s = [b, l, k]"
proof (cases "rev s")
  case Nil
  with assms show ?thesis by (simp add: broadcast_shapes_def)
next
  case (Cons k rs)
  with assms have "rs = [l, b]"
    by (auto simp: broadcast_shapes_def split: if_splits)
  with Cons have "rev s = [k, l, b]" by simp
  then have "s = rev [k, l, b]" by (metis rev_rev_ident)
  then show ?thesis by simp
qed

section \<open>Evaluation of the model at concrete inputs\<close>

lemma silu_1_pos: "0 < silu 1"
  by (simp add: silu_def add_pos_pos)

lemma upt_0_numeral: "[0..<numeral k] = [0..<pred_numeral k] @ [pred_numeral k]"
  by (simp add: numeral_eq_Suc)

lemmas tensor_eval = upt_0_numeral Let_def
  transpose12_def F_pad_left_def tensor_copy_def expand_def broadcast_shapes_def
  Conv1d_forward_def slice_from1_def tmap_def ndim_def swap12_def zeros_def bc_index_def
  mul_def add_def binop_def select_def unsqueeze_def torch_sum_def torch_roll_def
  setitem_last_def strip_ones_def iadd_def

lemmas slow_eval =
  slow_forward_def slow_project_def Linear_forward_def torch_split_def narrow_last_def
  conv_stage_def conv_step_def conv_prefill_def conv_nocache_def discretize_def
  torch_reshape_def infer_shape_def numel_def ssm_update_def torch_matmul_def
  torch_stack_def gate_output_def ssm_stage_def write_ssm_state_def

lemmas norm_eval = MambaRMSNormGated_forward_def mean_keepdim_def

lemma rsqrt_less_1: "1 < x \<Longrightarrow> rsqrt x < 1"
  by (simp add: rsqrt_def)

lemma rsqrt_pos: "0 < x \<Longrightarrow> 0 < rsqrt x"
  by (simp add: rsqrt_def)

lemma silu_1_bounds: "1 / 2 < silu 1" "silu 1 < 1"
proof -
  have p: "0 < 1 + exp (- 1 :: real)" by (simp add: add_pos_pos)
  have "exp (- 1 :: real) < 1" by simp
  with p show "1 / 2 < silu 1" by (simp add: silu_def pos_less_divide_eq)
  have "1 / (1 + exp (- 1 :: real)) < 1 / 1"
    by (intro divide_strict_left_mono) (simp_all add: add_pos_pos)
  then show "silu 1 < 1" by (simp add: silu_def)
qed

lemma rms_lower:
  fixes a e :: real
  assumes "0 < a" "0 < e" "81 * e < 19 * a\<^sup>2"
  shows "9 / 10 < a * rsqrt (a\<^sup>2 + e)"
proof -
  have p: "0 < a\<^sup>2 + e" using assms by (simp add: add_pos_pos)
  have "a\<^sup>2 + e < (10 * a / 9)\<^sup>2" using assms by (simp add: power2_eq_square field_simps)
  then have "sqrt (a\<^sup>2 + e) < sqrt ((10 * a / 9)\<^sup>2)" by (rule real_sqrt_less_mono)
  then have "sqrt (a\<^sup>2 + e) < 10 * a / 9" using assms by simp
  then show ?thesis using p by (simp add: rsqrt_def field_simps)
qed

lemma rms_upper:
  fixes b e :: real
  assumes "0 < b" "0 < e" "7 * b\<^sup>2 < 9 * e"
  shows "b * rsqrt (b\<^sup>2 + e) < 3 / 4"
proof -
  have p: "0 < b\<^sup>2 + e" using assms by (simp add: add_pos_pos)
  have "(4 * b / 3)\<^sup>2 < b\<^sup>2 + e" using assms by (simp add: power2_eq_square field_simps)
  then have "sqrt ((4 * b / 3)\<^sup>2) < sqrt (b\<^sup>2 + e)" by (rule real_sqrt_less_mono)
  then have "4 * b / 3 < sqrt (b\<^sup>2 + e)" using assms by simp
  then show ?thesis using p by (simp add: rsqrt_def field_simps)
qed

lemma rsqrt_power2: "0 < x \<Longrightarrow> (rsqrt x)\<^sup>2 = 1 / x"
  by (simp add: rsqrt_def power_divide)

section \<open>Properties: the exceptions of the forward pass\<close>

lemma slow_forward_error:
  "snd (slow_forward m x cp) = Inl e \<Longrightarrow> e = RuntimeError \<or> e = ValueError unpack_message"
  unfolding slow_forward_def
  by (simp split: list.splits option.splits prod.splits sum.splits)

lemma cuda_kernels_forward_error:
  "cuda_kernels_forward g tr m x cp = Inl e \<Longrightarrow>
     e = RuntimeError \<or> (\<exists>n. e = NameError n) \<or> (\<exists>n. e = UnboundLocalError n)"
  unfolding cuda_kernels_forward_def
  by (auto split: option.splits if_splits)

lemma messages_differ: "unpack_message \<noteq> inputs_message"
  by (simp add: unpack_message_def inputs_message_def)

lemma mixer_forward_error:
  "snd (Mamba2Mixer_forward g tr m x cp) \<noteq> Inl (ValueError inputs_message)"
proof
  assume a: "snd (Mamba2Mixer_forward g tr m x cp) = Inl (ValueError inputs_message)"
  show False
  proof (cases "is_fast_path_available g")
    case True
    with a have "cuda_kernels_forward g tr m x cp = Inl (ValueError inputs_message)"
      by (simp add: Mamba2Mixer_forward_def)
    from cuda_kernels_forward_error[OF this] show False by simp
  next
    case False
    with a have "snd (slow_forward m x cp) = Inl (ValueError inputs_message)"
      by (simp add: Mamba2Mixer_forward_def)
    from slow_forward_error[OF this] show False using messages_differ by simp
  qed
qed

lemma block_forward_error:
  "snd (Mamba2Block_forward g tr b x cp) \<noteq> Inl (ValueError inputs_message)"
proof (cases "Mamba2RMSNorm_forward (block_norm b) x")
  case None
  then show ?thesis by (simp add: Mamba2Block_forward_def)
next
  case (Some y)
  obtain c r where mf: "Mamba2Mixer_forward g tr (mixer b) y cp = (c, r)"
    by (cases "Mamba2Mixer_forward g tr (mixer b) y cp")
  with mixer_forward_error[of g tr "mixer b" y cp] have "r \<noteq> Inl (ValueError inputs_message)"
    by simp
  with Some mf show ?thesis
    by (auto simp: Mamba2Block_forward_def split: sum.splits option.splits)
qed

lemma run_layers_error:
  "snd (run_layers g tr bs x cp hs) \<noteq> Inl (ValueError inputs_message)"
proof (induction bs arbitrary: x cp hs)
  case Nil
  then show ?case by simp
next
  case (Cons b bs)
  obtain c r where bf: "Mamba2Block_forward g tr b x cp = (c, r)"
    by (cases "Mamba2Block_forward g tr b x cp")
  with block_forward_error[of g tr b x cp] have "r \<noteq> Inl (ValueError inputs_message)"
    by simp
  with bf Cons.IH show ?case
    by (auto split: sum.splits)
qed

text \<open>
  C10, with the error named: \<^verbatim>\<open>Mamba2Model.forward\<close> raises the \<^verbatim>\<open>ValueError\<close> of line 597,
  the one with the message about \<open>input_ids\<close> and \<open>inputs_embeds\<close>, exactly when the caller
  passes both of them or neither.  With exactly one of the two, the call goes on to the
  embedding and the layers and never raises this error.
\<close>

theorem forward_ValueError_iff:
  "snd (Mamba2Model_forward g m input_ids inputs_embeds cp uc ohs rd) = Inl (ValueError inputs_message)
   \<longleftrightarrow> (input_ids = None) = (inputs_embeds = None)"
proof (cases "(input_ids = None) \<noteq> (inputs_embeds \<noteq> None)")
  case True
  then show ?thesis by (auto simp: Mamba2Model_forward_def Let_def)
next
  case False
  have "snd (Mamba2Model_forward g m input_ids inputs_embeds cp uc ohs rd)
          \<noteq> Inl (ValueError inputs_message)"
  proof (cases "embed_inputs m input_ids inputs_embeds")
    case None
    with False show ?thesis by (simp add: Mamba2Model_forward_def Let_def)
  next
    case (Some e)
    show ?thesis
    proof (cases "create_cache m (effective_use_cache m uc) e cp")
      case None
      with False Some show ?thesis by (simp add: Mamba2Model_forward_def Let_def)
    next
      case c: (Some c0)
      define h where "h = (if (case ohs of Some b \<Rightarrow> b | None \<Rightarrow> config_output_hidden_states (config m))
                           then Some [] else (None :: tensor list option))"
      obtain c1 r where rl: "run_layers g (training m) (layers m) e c0 h = (c1, r)"
        by (cases "run_layers g (training m) (layers m) e c0 h")
      with run_layers_error[of g "training m" "layers m" e c0 h]
      have ne: "r \<noteq> Inl (ValueError inputs_message)" by simp
      show ?thesis
        using False Some c rl ne unfolding Mamba2Model_forward_def Let_def h_def
        by (auto split: option.split prod.split sum.split)
    qed
  qed
  with False show ?thesis by auto
qed

text \<open>
  With exactly one of the two, the call can still raise a \<^verbatim>\<open>ValueError\<close>, so C10 fails for
  \<^verbatim>\<open>ValueError\<close> as a class: an \<open>inputs_embeds\<close> of two dimensions reaches line 270 of
  \<^verbatim>\<open>slow_forward\<close>, where the unpacking of its shape into three names raises one.
\<close>

theorem forward_unpack_ValueError:
  "snd (Mamba2Model_forward slow_path model_one_layer None (Some embeds_2d) None None None None)
     = Inl (ValueError unpack_message)
   \<and> unpack_message \<noteq> inputs_message"
  by (simp add: Mamba2Model_forward_def Let_def model_one_layer_def block_ex_def embeds_2d_def
      embed_inputs_def create_cache_def effective_use_cache_def config_ex_def
      Mamba2Block_forward_def Mamba2Mixer_forward_def is_fast_path_available_def slow_path_def
      slow_forward_def Mamba2RMSNorm_forward_def mul_def binop_def broadcast_shapes_def
      mean_keepdim_def tmap_def unpack_message_def inputs_message_def)

section \<open>Properties: the cache\<close>

lemma tensor_copy_shape: "tensor_copy dst src = Some t \<Longrightarrow> shape t = shape dst"
  by (auto simp: tensor_copy_def expand_def split: if_splits)

lemma preserved_refl [simp]: "preserved cp cp"
  by (simp add: preserved_def split: option.splits)

lemma preserved_trans: "preserved a b \<Longrightarrow> preserved b c \<Longrightarrow> preserved a c"
  by (auto simp: preserved_def split: option.splits)

lemma preserved_conv_update:
  "conv_states c l = Some old \<Longrightarrow> shape new = shape old \<Longrightarrow>
   preserved (Some c) (Some (c\<lparr>conv_states := (conv_states c)(l \<mapsto> new)\<rparr>))"
  by (auto simp: preserved_def cache_shapes_def fun_eq_iff)

lemma preserved_ssm_update:
  "ssm_states c l = Some old \<Longrightarrow> shape new = shape old \<Longrightarrow>
   preserved (Some c) (Some (c\<lparr>ssm_states := (ssm_states c)(l \<mapsto> new)\<rparr>))"
  by (auto simp: preserved_def cache_shapes_def fun_eq_iff)

lemma conv_step_preserved: "preserved (Some c) (Some (fst (conv_step m c x)))"
proof (cases "conv_states c (layer_idx m)")
  case None
  then show ?thesis by (simp add: conv_step_def)
next
  case (Some cached)
  show ?thesis
  proof (cases "do { conv_state \<leftarrow> torch_roll cached;
                  conv_state \<leftarrow> setitem_last conv_state x;
                  written \<leftarrow> tensor_copy cached conv_state;
                  Some (conv_state, written) }")
    case None
    with Some show ?thesis by (simp add: conv_step_def)
  next
    case (Some p)
    obtain cs w where p: "p = (cs, w)" by (cases p)
    with Some have "tensor_copy cached cs = Some w"
      by (auto split: bind_splits)
    then have "shape w = shape cached" by (rule tensor_copy_shape)
    with \<open>conv_states c (layer_idx m) = Some cached\<close> Some p show ?thesis
      by (simp add: conv_step_def preserved_conv_update)
  qed
qed

lemma conv_prefill_preserved: "preserved (Some c) (Some (fst (conv_prefill m c x)))"
proof (cases "do { hidden_states \<leftarrow> transpose12 x;
             conv_state \<leftarrow> F_pad_left hidden_states
                             (int (conv_kernel_size m) - int (last (shape hidden_states)));
             cached \<leftarrow> conv_states c (layer_idx m);
             written \<leftarrow> tensor_copy cached conv_state;
             Some (hidden_states, written) }")
  case None
  then show ?thesis by (simp add: conv_prefill_def)
next
  case (Some p)
  obtain hs w where p: "p = (hs, w)" by (cases p)
  with Some obtain cached cs where a: "conv_states c (layer_idx m) = Some cached"
      and b: "tensor_copy cached cs = Some w"
    by (auto split: bind_splits)
  have "preserved (Some c) (Some (c\<lparr>conv_states := (conv_states c)(layer_idx m \<mapsto> w)\<rparr>))"
    by (rule preserved_conv_update[OF a tensor_copy_shape[OF b]])
  with Some p show ?thesis
    by (simp add: conv_prefill_def)
qed

lemma conv_stage_preserved: "preserved cp (fst (conv_stage m b x cp))"
proof (cases cp)
  case None
  then show ?thesis by (simp add: conv_stage_def preserved_def)
next
  case (Some c)
  then show ?thesis
    using conv_step_preserved[of c m x] conv_prefill_preserved[of c m x]
    by (auto simp: conv_stage_def split: option.splits prod.splits)
qed

lemma write_ssm_state_preserved:
  "write_ssm_state m cp s = Some cp' \<Longrightarrow> preserved cp cp'"
  by (auto simp: write_ssm_state_def preserved_ssm_update
      split: option.splits bind_splits dest: tensor_copy_shape)

lemma slow_forward_preserved: "preserved cp (fst (slow_forward m x cp))"
proof -
  have *: "\<And>b hs c r. conv_stage m b hs cp = (c, r) \<Longrightarrow> preserved cp c"
    using conv_stage_preserved by (metis fst_conv)
  show ?thesis
    unfolding slow_forward_def
    by (auto split: list.splits option.splits prod.splits
        dest!: * write_ssm_state_preserved intro: preserved_trans)
qed

lemma mixer_forward_preserved: "preserved cp (fst (Mamba2Mixer_forward g tr m x cp))"
  by (simp add: Mamba2Mixer_forward_def slow_forward_preserved)

lemma block_forward_preserved: "preserved cp (fst (Mamba2Block_forward g tr b x cp))"
proof (cases "Mamba2RMSNorm_forward (block_norm b) x")
  case None
  then show ?thesis by (simp add: Mamba2Block_forward_def)
next
  case (Some y)
  obtain c r where mf: "Mamba2Mixer_forward g tr (mixer b) y cp = (c, r)"
    by (cases "Mamba2Mixer_forward g tr (mixer b) y cp")
  with mixer_forward_preserved[of cp g tr "mixer b" y] have "preserved cp c" by simp
  with Some mf show ?thesis
    by (simp add: Mamba2Block_forward_def split: sum.splits)
qed

lemma run_layers_preserved: "preserved cp (fst (run_layers g tr bs x cp hs))"
proof (induction bs arbitrary: x cp hs)
  case Nil
  then show ?case by simp
next
  case (Cons b bs)
  obtain c r where bf: "Mamba2Block_forward g tr b x cp = (c, r)"
    by (cases "Mamba2Block_forward g tr b x cp")
  with block_forward_preserved[of cp g tr b x] have p: "preserved cp c" by simp
  show ?case
  proof (cases r)
    case (Inl e)
    with bf p show ?thesis by simp
  next
    case (Inr y)
    with bf p Cons.IH[of c y] show ?thesis
      by (auto intro: preserved_trans)
  qed
qed

lemma embed_inputs_seq_len:
  "embed_inputs m ids emb = Some e \<Longrightarrow> shape e ! 1 = input_seq_len ids emb"
  by (auto simp: embed_inputs_def input_seq_len_def Embedding_forward_def
      split: option.splits if_splits)

lemma update_seqlen_offset_Some:
  "update_seqlen_offset u e (Some c) = Some cp' \<Longrightarrow>
   \<exists>c'. cp' = Some c' \<and> cache_shapes c' = cache_shapes c
     \<and> seqlen_offset c' = seqlen_offset c + (if u then int (shape e ! 1) else 0)"
  by (auto simp: update_seqlen_offset_def cache_shapes_def split: if_splits)

lemma forward_cache_in_use:
  assumes x: "(ids = None) = (emb \<noteq> None)"
    and e: "embed_inputs m ids emb = Some e"
    and cc: "create_cache m (effective_use_cache m uc) e cp = Some (Some c)"
  shows "\<exists>c'. fst (Mamba2Model_forward g m ids emb cp uc ohs rd) = Some c'
      \<and> cache_shapes c' = cache_shapes c
      \<and> (seqlen_offset c' = seqlen_offset c
           \<or> effective_use_cache m uc
             \<and> seqlen_offset c' = seqlen_offset c + int (input_seq_len ids emb))
      \<and> (\<forall>out. snd (Mamba2Model_forward g m ids emb cp uc ohs rd) = Inr out \<longrightarrow>
             seqlen_offset c' = seqlen_offset c
               + (if effective_use_cache m uc then int (input_seq_len ids emb) else 0))"
    (is "\<exists>c'. ?P c'")
proof -
  define h where "h = (if (case ohs of Some b \<Rightarrow> b | None \<Rightarrow> config_output_hidden_states (config m))
                       then Some [] else (None :: tensor list option))"
  obtain c1 r where rl: "run_layers g (training m) (layers m) e (Some c) h = (c1, r)"
    by (cases "run_layers g (training m) (layers m) e (Some c) h")
  with run_layers_preserved[of "Some c" g "training m" "layers m" e h]
  obtain c2 where c2: "c1 = Some c2" "cache_shapes c2 = cache_shapes c"
      "seqlen_offset c2 = seqlen_offset c"
    by (auto simp: preserved_def split: option.splits)
  show ?thesis
  proof (cases r)
    case (Inl err)
    with x e cc rl c2 show ?thesis
      unfolding Mamba2Model_forward_def Let_def h_def by simp
  next
    case (Inr p)
    obtain hs ahs where p: "p = (hs, ahs)" by (cases p)
    show ?thesis
    proof (cases "update_seqlen_offset (effective_use_cache m uc) e (Some c2)")
      case None
      with x e cc rl c2 Inr p show ?thesis
        unfolding Mamba2Model_forward_def Let_def h_def by simp
    next
      case u: (Some cp')
      from update_seqlen_offset_Some[OF u] embed_inputs_seq_len[OF e]
      obtain c3 where c3: "cp' = Some c3" "cache_shapes c3 = cache_shapes c2"
        "seqlen_offset c3 = seqlen_offset c2
           + (if effective_use_cache m uc then int (input_seq_len ids emb) else 0)"
        by auto
      have "?P c3"
        using x e cc rl c2 Inr p u c3
        unfolding Mamba2Model_forward_def Let_def h_def
        by (simp split: option.split)
      then show ?thesis ..
    qed
  qed
qed

lemma forward_cache:
  "\<exists>c'. fst (Mamba2Model_forward g m ids emb (Some c) uc ohs rd) = Some c'
      \<and> cache_shapes c' = cache_shapes c
      \<and> (seqlen_offset c' = seqlen_offset c
           \<or> effective_use_cache m uc
             \<and> seqlen_offset c' = seqlen_offset c + int (input_seq_len ids emb))
      \<and> (\<forall>out. snd (Mamba2Model_forward g m ids emb (Some c) uc ohs rd) = Inr out \<longrightarrow>
             seqlen_offset c' = seqlen_offset c
               + (if effective_use_cache m uc then int (input_seq_len ids emb) else 0))"
proof (cases "(ids = None) \<noteq> (emb \<noteq> None)")
  case True
  then show ?thesis by (auto simp: Mamba2Model_forward_def Let_def)
next
  case False
  show ?thesis
  proof (cases "embed_inputs m ids emb")
    case None
    with False show ?thesis by (simp add: Mamba2Model_forward_def Let_def)
  next
    case (Some e)
    have "create_cache m (effective_use_cache m uc) e (Some c) = Some (Some c)"
      by (simp add: create_cache_def)
    with False Some show ?thesis
      by (intro forward_cache_in_use) auto
  qed
qed

lemma forward_new_cache:
  assumes u: "effective_use_cache m uc"
    and r: "snd (Mamba2Model_forward g m ids emb None uc ohs rd) = Inr out"
  shows "\<exists>c'. fst (Mamba2Model_forward g m ids emb None uc ohs rd) = Some c'
           \<and> seqlen_offset c' = int (input_seq_len ids emb)"
proof -
  from r have x: "(ids = None) = (emb \<noteq> None)"
    by (auto simp: Mamba2Model_forward_def Let_def split: if_splits)
  from r x obtain e where e: "embed_inputs m ids emb = Some e"
    by (cases "embed_inputs m ids emb") (auto simp: Mamba2Model_forward_def Let_def)
  from r x e u obtain c where cc: "create_cache m (effective_use_cache m uc) e None = Some (Some c)"
      and c: "c = Mamba2Cache_init (config m) (hd (shape e))"
    by (cases "shape e = []") (auto simp: Mamba2Model_forward_def Let_def create_cache_def)
  have "seqlen_offset c = 0" by (simp add: c Mamba2Cache_init_def)
  with forward_cache_in_use[OF x e cc, of g ohs rd] r u show ?thesis
    by auto
qed

text \<open>
  C4: whatever forward calls a session makes on a cache, with whatever arguments and from
  whatever \<open>seqlen_offset\<close>, and whether the calls return or raise, every layer's
  \<open>conv_states\<close> and \<open>ssm_states\<close> tensor keeps the shape it had at the start: the
  tensors of the cache are only overwritten through \<^verbatim>\<open>copy_\<close>.
\<close>

theorem cache_shapes_session:
  "cache_shapes (session g m calls cache) = cache_shapes cache"
proof (induction calls arbitrary: cache)
  case Nil
  show ?case by simp
next
  case (Cons a calls)
  obtain ids emb uc ohs rd where a: "a = (ids, emb, uc, ohs, rd)"
    by (cases a)
  from forward_cache[of g m ids emb cache uc ohs rd]
  obtain c' where "fst (Mamba2Model_forward g m ids emb (Some cache) uc ohs rd) = Some c'"
      "cache_shapes c' = cache_shapes cache"
    by blast
  with Cons.IH[of c'] a show ?case by simp
qed

text \<open>
  What a forward call does to \<open>seqlen_offset\<close> on any model: the offset never decreases;
  a call that returns has added the sequence length of the input when \<open>use_cache\<close> is in
  effect and nothing otherwise (line 623 guards the increment).  In \<^verbatim>\<open>slow_forward\<close>
  with a cache, an offset above 0 selects the single-step branch of the convolution and
  any other offset the prefill branch.
\<close>

lemma seqlen_offset_forward:
  "(\<exists>c'. fst (Mamba2Model_forward g m ids emb (Some c) uc ohs rd) = Some c'
      \<and> seqlen_offset c \<le> seqlen_offset c'
      \<and> (\<forall>out. snd (Mamba2Model_forward g m ids emb (Some c) uc ohs rd) = Inr out \<longrightarrow>
             seqlen_offset c' = seqlen_offset c
               + (if effective_use_cache m uc then int (input_seq_len ids emb) else 0))
      \<and> (\<not> effective_use_cache m uc \<longrightarrow> seqlen_offset c' = seqlen_offset c))
   \<and> (\<forall>out. effective_use_cache m uc
         \<and> snd (Mamba2Model_forward g m ids emb None uc ohs rd) = Inr out \<longrightarrow>
         (\<exists>c'. fst (Mamba2Model_forward g m ids emb None uc ohs rd) = Some c'
            \<and> seqlen_offset c' = int (input_seq_len ids emb)))
   \<and> (\<forall>self b x s. ssm_states c (layer_idx self) = Some s \<longrightarrow>
         conv_stage self b x (Some c) =
           (if seqlen_offset c > 0
            then (Some (fst (conv_step self c x)),
                  map_option (Pair s) (snd (conv_step self c x)))
            else (Some (fst (conv_prefill self c x)),
                  map_option (Pair s) (snd (conv_prefill self c x)))))"
proof (intro conjI)
  from forward_cache[of g m ids emb c uc ohs rd]
  show "\<exists>c'. fst (Mamba2Model_forward g m ids emb (Some c) uc ohs rd) = Some c'
      \<and> seqlen_offset c \<le> seqlen_offset c'
      \<and> (\<forall>out. snd (Mamba2Model_forward g m ids emb (Some c) uc ohs rd) = Inr out \<longrightarrow>
             seqlen_offset c' = seqlen_offset c
               + (if effective_use_cache m uc then int (input_seq_len ids emb) else 0))
      \<and> (\<not> effective_use_cache m uc \<longrightarrow> seqlen_offset c' = seqlen_offset c)"
    by auto
next
  show "\<forall>out. effective_use_cache m uc
         \<and> snd (Mamba2Model_forward g m ids emb None uc ohs rd) = Inr out \<longrightarrow>
         (\<exists>c'. fst (Mamba2Model_forward g m ids emb None uc ohs rd) = Some c'
            \<and> seqlen_offset c' = int (input_seq_len ids emb))"
    using forward_new_cache by blast
next
  show "\<forall>self b x s. ssm_states c (layer_idx self) = Some s \<longrightarrow>
         conv_stage self b x (Some c) =
           (if seqlen_offset c > 0
            then (Some (fst (conv_step self c x)),
                  map_option (Pair s) (snd (conv_step self c x)))
            else (Some (fst (conv_prefill self c x)),
                  map_option (Pair s) (snd (conv_prefill self c x))))"
    by (simp add: conv_stage_def split: prod.split)
qed

section \<open>Properties: the recurrence\<close>

text \<open>
  C9: when the discrete decay factor of a step is zero, line 327 leaves in \<open>ssm_state\<close> the
  input injection of that step alone, broadcast to the shape of the result: where the
  result has the shape of the injection, the two agree entry by entry, and any prior state
  of the same shape gives the same result.  (In exact arithmetic \<open>exp\<close> is never zero; the
  decay is any tensor whose entries are zero.)
\<close>

theorem zero_decay_forgets:
  assumes z: "\<forall>idx. valid_index (shape dA) idx \<longrightarrow> entry dA idx = 0"
    and u: "ssm_update ssm_state dA dBu = Some new_state"
  shows "new_state = tabulate (shape new_state) (\<lambda>idx. entry dBu (bc_index (shape dBu) idx))
     \<and> (shape new_state = shape dBu \<longrightarrow>
          (\<forall>idx. valid_index (shape dBu) idx \<longrightarrow> entry new_state idx = entry dBu idx))
     \<and> (\<forall>other. shape other = shape ssm_state \<longrightarrow> ssm_update other dA dBu = Some new_state)"
proof -
  from u obtain sp r where sp: "broadcast_shapes (shape ssm_state) (shape dA) = Some sp"
    and r: "broadcast_shapes sp (shape dBu) = Some r"
    and n: "new_state = tabulate r (\<lambda>idx.
              entry (tabulate sp (\<lambda>idx. entry ssm_state (bc_index (shape ssm_state) idx)
                                     * entry dA (bc_index (shape dA) idx))) (bc_index sp idx)
              + entry dBu (bc_index (shape dBu) idx))"
    by (auto simp: ssm_update_def mul_def add_def binop_def split: option.splits bind_splits)
  have zero: "entry (tabulate sp (\<lambda>idx. entry s (bc_index (shape ssm_state) idx)
                                     * entry dA (bc_index (shape dA) idx))) (bc_index sp idx) = 0"
    if "valid_index r idx" for idx s
  proof -
    have 1: "valid_index sp (bc_index sp idx)"
      by (rule bc_index_valid_left[OF r that])
    have "valid_index (shape dA) (bc_index (shape dA) (bc_index sp idx))"
      by (rule bc_index_valid_right[OF sp 1])
    with z 1 show ?thesis by simp
  qed
  have eq: "tabulate r (\<lambda>idx.
              entry (tabulate sp (\<lambda>idx. entry s (bc_index (shape ssm_state) idx)
                                     * entry dA (bc_index (shape dA) idx))) (bc_index sp idx)
              + entry dBu (bc_index (shape dBu) idx))
            = tabulate r (\<lambda>idx. entry dBu (bc_index (shape dBu) idx))" for s
  proof (rule tabulate_cong)
    fix idx assume v: "valid_index r idx"
    show "entry (tabulate sp (\<lambda>idx. entry s (bc_index (shape ssm_state) idx)
                                     * entry dA (bc_index (shape dA) idx))) (bc_index sp idx)
              + entry dBu (bc_index (shape dBu) idx)
          = entry dBu (bc_index (shape dBu) idx)"
      by (simp only: zero[OF v, of s] add_0)
  qed
  have n': "new_state = tabulate r (\<lambda>idx. entry dBu (bc_index (shape dBu) idx))"
    using n eq[of ssm_state] by (rule trans)
  have sh: "shape new_state = r"
    by (subst n') (rule shape_tabulate)
  have a: "new_state = tabulate (shape new_state) (\<lambda>idx. entry dBu (bc_index (shape dBu) idx))"
    using n' sh by (simp only:)
  have b: "shape new_state = shape dBu \<longrightarrow>
          (\<forall>idx. valid_index (shape dBu) idx \<longrightarrow> entry new_state idx = entry dBu idx)"
  proof (intro impI allI)
    fix idx assume s: "shape new_state = shape dBu" and v: "valid_index (shape dBu) idx"
    have "entry new_state idx = entry (tabulate (shape dBu) (\<lambda>idx. entry dBu (bc_index (shape dBu) idx))) idx"
      using a s by (simp only:)
    also have "\<dots> = entry dBu idx" using v by (simp add: bc_index_same)
    finally show "entry new_state idx = entry dBu idx" .
  qed
  have c: "\<forall>other. shape other = shape ssm_state \<longrightarrow> ssm_update other dA dBu = Some new_state"
  proof (intro allI impI)
    fix other :: tensor assume o: "shape other = shape ssm_state"
    have "ssm_update other dA dBu = Some (tabulate r (\<lambda>idx.
              entry (tabulate sp (\<lambda>idx. entry other (bc_index (shape ssm_state) idx)
                                     * entry dA (bc_index (shape dA) idx))) (bc_index sp idx)
              + entry dBu (bc_index (shape dBu) idx)))"
      using sp r o by (simp add: ssm_update_def mul_def add_def binop_def)
    also have "\<dots> = Some new_state"
      using eq[of other] n' by (simp only:)
    finally show "ssm_update other dA dBu = Some new_state" .
  qed
  show ?thesis by (rule conjI[OF a conjI[OF b c]])
qed

text \<open>
  The theorem at a state of the cache's shape with non-zero entries: the new state is the
  injection, and it is the state that a zero prior state gives.
\<close>

theorem zero_decay_forgets_witness:
  "\<exists>new_state. ssm_update prior_state (zeros [1, 1, 1, 1]) injection = Some new_state
     \<and> shape new_state = shape injection
     \<and> entry new_state [0, 0, 1, 0] = entry injection [0, 0, 1, 0]
     \<and> ssm_update (zeros [1, 2, 2]) (zeros [1, 1, 1, 1]) injection = Some new_state"
proof -
  have z: "\<forall>idx. valid_index (shape (zeros [1, 1, 1, 1])) idx \<longrightarrow> entry (zeros [1, 1, 1, 1]) idx = 0"
    by (simp add: zeros_def)
  obtain new_state where u: "ssm_update prior_state (zeros [1, 1, 1, 1]) injection = Some new_state"
    and s: "shape new_state = shape injection"
    by (simp add: ssm_update_def mul_def add_def binop_def broadcast_shapes_def
        prior_state_def injection_def zeros_def)
  have v: "valid_index (shape injection) [0, 0, 1, 0]"
    by (simp add: injection_def)
  have o: "shape (zeros [1, 2, 2]) = shape prior_state"
    by (simp add: zeros_def prior_state_def)
  note t = zero_decay_forgets[OF z u]
  from t have "shape new_state = shape injection \<longrightarrow>
      (\<forall>idx. valid_index (shape injection) idx \<longrightarrow> entry new_state idx = entry injection idx)"
    by (rule conjunct1[OF conjunct2])
  with s v have e: "entry new_state [0, 0, 1, 0] = entry injection [0, 0, 1, 0]"
    by blast
  from t have "\<forall>other. shape other = shape prior_state \<longrightarrow>
      ssm_update other (zeros [1, 1, 1, 1]) injection = Some new_state"
    by (rule conjunct2[OF conjunct2])
  with o have f: "ssm_update (zeros [1, 2, 2]) (zeros [1, 1, 1, 1]) injection = Some new_state"
    by blast
  from u s e f show ?thesis by (intro exI[of _ new_state] conjI)
qed

lemma code_readout:
  "\<exists>hs C dA dBu s outs.
     discretize mixer_ex 1 1 dt_ex ssm_in = Some (hs, C, dA, dBu)
     \<and> scan_loop dA dBu C [0..<1] (zeros [1, 2, 2]) [] = Some (s, outs)
     \<and> length outs = 1 \<and> shape (outs ! 0) = [1, 1, 2]
     \<and> entry (outs ! 0) [0, 0, 0] = 0"
  by (simp add: slow_eval mixer_ex_def dt_ex_def ssm_in_def tensor_eval)

lemma spec_readout_ex:
  "spec_readout (ssm_inputs_of mixer_ex dt_ex ssm_in) 0 0 0 0 = 1"
  by (simp add: spec_readout_def spec_inject_def spec_discrete_decay_def ssm_inputs_of_def
      mixer_ex_def dt_ex_def ssm_in_def tensor_eval)


text \<open>
  C2 fails on the code: line 320 reshapes \<open>deltaB_u\<close> from \<open>[.., head_dim, state]\<close> to
  \<open>[.., state, head_dim]\<close> without transposing it, so the readout of line 328 sums over the
  wrong entries.  For the input \<open>[1, 0]\<close>, \<open>B = [0, 1]\<close>, \<open>C = [0, 1]\<close> and a step size of 1,
  the code reads out 0 at feature 0 where the formula of the specification gives 1.
\<close>

theorem recurrence_readout_differs:
  "\<exists>hs C dA dBu s outs.
     discretize mixer_ex 1 1 dt_ex ssm_in = Some (hs, C, dA, dBu)
     \<and> scan_loop dA dBu C [0..<1] (zeros [1, 2, 2]) [] = Some (s, outs)
     \<and> entry (outs ! 0) [0, 0, 0] = 0
     \<and> spec_readout (ssm_inputs_of mixer_ex dt_ex ssm_in) 0 0 0 0 = 1"
  using code_readout spec_readout_ex by blast

section \<open>Properties: the convolution\<close>

lemma conv_prefill_a:
  "\<exists>ya. snd (conv_prefill mixer_ex cache_ex conv_in_a) = Some ya \<and> shape ya = [1, 2, 6]
     \<and> entry ya [0, 0, 0] = 0"
  by (simp add: conv_prefill_def mixer_ex_def cache_ex_def config_ex_def Mamba2Cache_init_def
      conv_in_a_def tensor_eval silu_def)

lemma conv_prefill_b:
  "\<exists>yb. snd (conv_prefill mixer_ex cache_ex conv_in_b) = Some yb \<and> shape yb = [1, 2, 6]
     \<and> entry yb [0, 0, 0] = silu 1"
  by (simp add: conv_prefill_def mixer_ex_def cache_ex_def config_ex_def Mamba2Cache_init_def
      conv_in_b_def tensor_eval)

lemma conv_nocache_a:
  "\<exists>za. conv_nocache mixer_ex conv_in_a = Some za \<and> shape za = [1, 1, 6]
     \<and> entry za [0, 0, 0] = 0"
  by (simp add: conv_nocache_def mixer_ex_def conv_in_a_def tensor_eval silu_def)

lemma conv_nocache_b:
  "\<exists>zb. conv_nocache mixer_ex conv_in_b = Some zb \<and> shape zb = [1, 1, 6]
     \<and> entry zb [0, 0, 0] = silu 1"
  by (simp add: conv_nocache_def mixer_ex_def conv_in_b_def tensor_eval)

text \<open>
  C5 fails on the code.  With a cache, the prefill branch keeps the outputs
  \<open>conv_kernel - 1\<close> onwards of the padded convolution (line 302), so that the output at
  step \<open>t\<close> reads the inputs at steps \<open>t\<close> to \<open>t + conv_kernel - 1\<close>.  Without a cache, line
  308 keeps the last \<open>conv_kernel - 1\<close> outputs, whatever the length of the sequence, and
  the first of them reads the last input.  The two inputs below agree at step 0 in every
  channel and differ at step 1; the outputs at step 0 differ in both branches.
\<close>

theorem conv_prefill_not_causal:
  "\<exists>ya yb za zb.
     snd (conv_prefill mixer_ex cache_ex conv_in_a) = Some ya
     \<and> snd (conv_prefill mixer_ex cache_ex conv_in_b) = Some yb
     \<and> conv_nocache mixer_ex conv_in_a = Some za
     \<and> conv_nocache mixer_ex conv_in_b = Some zb
     \<and> list_all (\<lambda>c. entry conv_in_a [0, 0, c] = entry conv_in_b [0, 0, c]) [0..<6]
     \<and> entry ya [0, 0, 0] \<noteq> entry yb [0, 0, 0]
     \<and> entry za [0, 0, 0] \<noteq> entry zb [0, 0, 0]"
proof -
  from conv_prefill_a obtain ya where
    a: "snd (conv_prefill mixer_ex cache_ex conv_in_a) = Some ya" "entry ya [0, 0, 0] = 0"
    by blast
  from conv_prefill_b obtain yb where
    b: "snd (conv_prefill mixer_ex cache_ex conv_in_b) = Some yb" "entry yb [0, 0, 0] = silu 1"
    by blast
  from conv_nocache_a obtain za where
    c: "conv_nocache mixer_ex conv_in_a = Some za" "entry za [0, 0, 0] = 0"
    by blast
  from conv_nocache_b obtain zb where
    d: "conv_nocache mixer_ex conv_in_b = Some zb" "entry zb [0, 0, 0] = silu 1"
    by blast
  have "list_all (\<lambda>c. entry conv_in_a [0, 0, c] = entry conv_in_b [0, 0, c]) [0..<6]"
    by (simp add: conv_in_a_def conv_in_b_def zeros_def upt_0_numeral)
  with a b c d silu_1_pos show ?thesis by auto
qed

text \<open>
  The single step for a batch of one sequence: the assignment of line 289 drops the two
  leading dimensions of size 1 of the new frame, and lines 288 to 294 shift the buffer,
  put the frame last, write the buffer back and return the dot product of each channel with
  its kernel, plus the bias, through the activation.
\<close>

lemma expand_frame:
  assumes "shape x = [1, 1, C]"
  shows "\<exists>e. expand (strip_ones x) [1, C] = Some e \<and> shape e = [1, C]
           \<and> (\<forall>j<C. entry e [0, j] = entry x [0, 0, j])"
proof (cases "C = 1")
  case True
  with assms show ?thesis
    by (simp add: strip_ones_def expand_def broadcast_shapes_def bc_index_def ndim_def Let_def
        eval_nat_numeral)
next
  case False
  with assms show ?thesis
    by (simp add: strip_ones_def expand_def broadcast_shapes_def bc_index_def ndim_def Let_def
        eval_nat_numeral)
qed

lemma roll_insert:
  assumes "shape cached = [1, C, K]" "0 < K" "shape x = [1, 1, C]"
  shows "\<exists>r. torch_roll cached = Some r \<and>
     setitem_last r x =
       Some (tabulate [1, C, K]
               (\<lambda>idx. if idx ! 2 = K - 1 then entry x [0, 0, idx ! 1]
                      else entry cached [0, idx ! 1, idx ! 2 + 1]))"
proof -
  let ?r = "tabulate [1, C, K]
              (\<lambda>idx. entry cached (butlast idx @ [(last idx + 1) mod last (shape cached)]))"
  have r: "torch_roll cached = Some ?r" using assms(1) by (simp add: torch_roll_def)
  from expand_frame[OF assms(3)] obtain e where
    e: "expand (strip_ones x) [1, C] = Some e" "\<forall>j<C. entry e [0, j] = entry x [0, 0, j]"
    by blast
  have "setitem_last ?r x =
      Some (tabulate [1, C, K]
             (\<lambda>idx. if idx ! 2 = K - 1 then entry e (take 2 idx @ drop 3 idx)
                    else entry ?r idx))"
    using assms(2) e(1) by (simp add: setitem_last_def ndim_def cong: if_cong)
  also have "tabulate [1, C, K]
             (\<lambda>idx. if idx ! 2 = K - 1 then entry e (take 2 idx @ drop 3 idx)
                    else entry ?r idx)
     = tabulate [1, C, K]
               (\<lambda>idx. if idx ! 2 = K - 1 then entry x [0, 0, idx ! 1]
                      else entry cached [0, idx ! 1, idx ! 2 + 1])"
  proof (rule tabulate_cong)
    fix idx assume v: "valid_index [1, C, K] idx"
    then obtain j k where idx: "idx = [0, j, k]" "j < C" "k < K"
      by (auto simp: valid_index3)
    show "(if idx ! 2 = K - 1 then entry e (take 2 idx @ drop 3 idx) else entry ?r idx)
        = (if idx ! 2 = K - 1 then entry x [0, 0, idx ! 1]
           else entry cached [0, idx ! 1, idx ! 2 + 1])"
    proof (cases "k = K - 1")
      case True
      with idx e(2) show ?thesis by (simp add: eval_nat_numeral)
    next
      case False
      with idx have "k + 1 < K" by simp
      with idx False assms(1) show ?thesis by (simp add: eval_nat_numeral)
    qed
  qed
  finally show ?thesis using r by blast
qed

lemma conv_dot:
  assumes "shape buf = [1, C, K]" "shape W = [C, 1, K]"
  shows "\<exists>w p. select 1 0 W = Some w \<and> mul buf w = Some p \<and> shape (torch_sum p) = [1, C]
     \<and> (\<forall>ch<C. entry (torch_sum p) [0, ch]
                 = (\<Sum>k\<leftarrow>[0..<K]. entry buf [0, ch, k] * entry W [ch, 0, k]))"
proof -
  let ?w = "tabulate [C, K] (\<lambda>idx. entry W (take 1 idx @ 0 # drop 1 idx))"
  have sel: "select 1 0 W = Some ?w" using assms(2) by (simp add: select_def ndim_def)
  let ?p = "tabulate [1, C, K]
              (\<lambda>idx. entry buf (bc_index [1, C, K] idx) * entry ?w (bc_index [C, K] idx))"
  have ml: "mul buf ?w = Some ?p"
    using assms(1) by (simp add: mul_def binop_def broadcast_shapes_def)
  have sh: "shape (torch_sum ?p) = [1, C]" by (simp add: torch_sum_def)
  have val: "entry (torch_sum ?p) [0, ch]
           = (\<Sum>k\<leftarrow>[0..<K]. entry buf [0, ch, k] * entry W [ch, 0, k])"
    if ch: "ch < C" for ch
  proof -
    have "entry ?p [0, ch, k] = entry buf [0, ch, k] * entry W [ch, 0, k]" if "k < K" for k
    proof -
      have "bc_index [1, C, K] [0, ch, k] = [0, ch, k]"
        by (rule bc_index_same) (use ch that in simp)
      moreover have "bc_index [C, K] [0, ch, k] = [ch, k]"
        using bc_index_same[of "[C, K]" "[ch, k]"] ch that by (simp add: bc_index_def)
      ultimately show ?thesis using ch that by simp
    qed
    then have "(\<Sum>k\<leftarrow>[0..<K]. entry ?p [0, ch, k])
             = (\<Sum>k\<leftarrow>[0..<K]. entry buf [0, ch, k] * entry W [ch, 0, k])"
      by (intro arg_cong[where f = sum_list] map_cong) simp_all
    then show ?thesis using ch by (simp add: torch_sum_def)
  qed
  from sel ml sh val show ?thesis by blast
qed

lemma add_bias:
  assumes "shape h = [1, C]" "shape b = [C]"
  shows "\<exists>r. iadd h b = Some r \<and> shape r = [1, C]
           \<and> (\<forall>ch<C. entry r [0, ch] = entry h [0, ch] + entry b [ch])"
proof -
  let ?r = "tabulate [1, C] (\<lambda>idx. entry h (bc_index [1, C] idx) + entry b (bc_index [C] idx))"
  have "iadd h b = Some ?r"
    using assms by (simp add: iadd_def add_def binop_def broadcast_shapes_def)
  moreover have "entry ?r [0, ch] = entry h [0, ch] + entry b [ch]" if "ch < C" for ch
  proof -
    have "bc_index [1, C] [0, ch] = [0, ch]"
      by (rule bc_index_same) (use that in simp)
    moreover have "bc_index [C] [0, ch] = [ch]"
      using bc_index_same[of "[C]" "[ch]"] that by (simp add: bc_index_def)
    ultimately show ?thesis using that by simp
  qed
  ultimately show ?thesis by simp
qed

lemma act_unsqueeze:
  assumes "shape h = [1, C]" "ch < C"
  shows "entry (unsqueeze (ndim (tmap f h)) (tmap f h)) [0, ch, 0] = f (entry h [0, ch])"
  using assms by (simp add: unsqueeze_def tmap_def ndim_def)

lemma act_unsqueeze_shape:
  "shape h = [1, C] \<Longrightarrow> shape (unsqueeze (ndim (tmap f h)) (tmap f h)) = [1, C, 1]"
  by (simp add: unsqueeze_def tmap_def ndim_def)

lemma conv_step_batch1:
  assumes cached: "conv_states c (layer_idx m) = Some cached" "shape cached = [1, C, K]" "0 < K"
    and x: "shape x = [1, 1, C]"
    and w: "shape (conv_weight (conv1d m)) = [C, 1, K]"
    and b: "use_conv_bias m \<Longrightarrow> conv_bias (conv1d m) = Some bias \<and> shape bias = [C]"
  shows "\<exists>buf y.
     conv_step m c x = (c\<lparr>conv_states := (conv_states c)(layer_idx m \<mapsto> buf)\<rparr>, Some y)
     \<and> buf = tabulate [1, C, K]
               (\<lambda>idx. if idx ! 2 = K - 1 then entry x [0, 0, idx ! 1]
                      else entry cached [0, idx ! 1, idx ! 2 + 1])
     \<and> shape y = [1, C, 1]
     \<and> (\<forall>ch<C. entry y [0, ch, 0]
           = act m ((\<Sum>k\<leftarrow>[0..<K]. entry buf [0, ch, k]
                                    * entry (conv_weight (conv1d m)) [ch, 0, k])
                    + (if use_conv_bias m then entry bias [ch] else 0)))"
proof -
  let ?buf = "tabulate [1, C, K]
               (\<lambda>idx. if idx ! 2 = K - 1 then entry x [0, 0, idx ! 1]
                      else entry cached [0, idx ! 1, idx ! 2 + 1])"
  let ?W = "conv_weight (conv1d m)"
  from roll_insert[OF cached(2,3) x] obtain r where
    r: "torch_roll cached = Some r" "setitem_last r x = Some ?buf"
    by blast
  have cp: "tensor_copy cached ?buf = Some ?buf"
    by (rule copy_same_shape[OF cached(2)])
  from conv_dot[of ?buf C K ?W] w obtain wt p where
    d: "select 1 0 ?W = Some wt" "mul ?buf wt = Some p" "shape (torch_sum p) = [1, C]"
      "\<forall>ch<C. entry (torch_sum p) [0, ch]
                 = (\<Sum>k\<leftarrow>[0..<K]. entry ?buf [0, ch, k] * entry ?W [ch, 0, k])"
    by auto
  have n3: "3 \<le> ndim ?W" using w by (simp add: ndim_def)
  show ?thesis
  proof (cases "use_conv_bias m")
    case False
    let ?y = "unsqueeze (ndim (tmap (act m) (torch_sum p))) (tmap (act m) (torch_sum p))"
    have "conv_step m c x
        = (c\<lparr>conv_states := (conv_states c)(layer_idx m \<mapsto> ?buf)\<rparr>, Some ?y)"
      using cached(1) r cp d(1,2) n3 False by (simp add: conv_step_def Let_def)
    moreover have "shape ?y = [1, C, 1]" by (rule act_unsqueeze_shape[OF d(3)])
    moreover have "\<forall>ch<C. entry ?y [0, ch, 0]
           = act m ((\<Sum>k\<leftarrow>[0..<K]. entry ?buf [0, ch, k] * entry ?W [ch, 0, k])
                    + (if use_conv_bias m then entry bias [ch] else 0))"
      using act_unsqueeze[OF d(3)] d(4) False by simp
    ultimately show ?thesis by blast
  next
    case True
    with b have bs: "conv_bias (conv1d m) = Some bias" "shape bias = [C]" by simp_all
    from add_bias[OF d(3) bs(2)] obtain h where
      h: "iadd (torch_sum p) bias = Some h" "shape h = [1, C]"
        "\<forall>ch<C. entry h [0, ch] = entry (torch_sum p) [0, ch] + entry bias [ch]"
      by blast
    let ?y = "unsqueeze (ndim (tmap (act m) h)) (tmap (act m) h)"
    have "conv_step m c x
        = (c\<lparr>conv_states := (conv_states c)(layer_idx m \<mapsto> ?buf)\<rparr>, Some ?y)"
      using cached(1) r cp d(1,2) n3 True bs(1) h(1) by (simp add: conv_step_def Let_def)
    moreover have "shape ?y = [1, C, 1]" by (rule act_unsqueeze_shape[OF h(2)])
    moreover have "\<forall>ch<C. entry ?y [0, ch, 0]
           = act m ((\<Sum>k\<leftarrow>[0..<K]. entry ?buf [0, ch, k] * entry ?W [ch, 0, k])
                    + (if use_conv_bias m then entry bias [ch] else 0))"
      using act_unsqueeze[OF h(2)] h(3) d(4) True by simp
    ultimately show ?thesis by blast
  qed
qed


text \<open>
  For a batch of two sequences or more, the new frame keeps its three dimensions and the
  assignment of line 289 raises.
\<close>

lemma conv_step_batch_raises:
  assumes "conv_states c (layer_idx m) = Some cached" "shape cached = [B, C, K]"
    and "shape x = [B, 1, C]" "2 \<le> B"
  shows "snd (conv_step m c x) = None"
proof -
  have "dropWhile (\<lambda>n. n = 1) [B, 1, C] = [B, 1, C]" using assms(4) by simp
  then have "expand (strip_ones x) [B, C] = None"
    using assms(3,4)
    by (simp add: strip_ones_def expand_def broadcast_shapes_def Let_def)
  then show ?thesis
    using assms(1,2)
    by (simp add: conv_step_def torch_roll_def setitem_last_def ndim_def)
qed


text \<open>
  C6 fails on the code for a batch of more than one sequence: the new frames have the shape
  \<open>[batch, 1, channels]\<close>, the slot \<^verbatim>\<open>conv_state[:, :, -1]\<close> has the shape
  \<open>[batch, channels]\<close>, and the assignment of line 289 raises.
\<close>

theorem conv_step_batch2_raises:
  "snd (conv_step mixer_ex ((Mamba2Cache_init config_ex 2)\<lparr>seqlen_offset := 1\<rparr>) frames_batch2)
     = None"
  by (simp add: conv_step_def mixer_ex_def config_ex_def Mamba2Cache_init_def
      frames_batch2_def tensor_eval)

section \<open>Properties: the mixer\<close>

lemma slow_forward_no_cache:
  "\<exists>y. snd (slow_forward mixer_ex one_token None) = Inr y"
  by (simp add: slow_eval mixer_ex_def one_token_def tensor_eval)

lemma slow_forward_step:
  "snd (slow_forward mixer_ex one_token (Some (cache_ex\<lparr>seqlen_offset := 1\<rparr>))) = Inl RuntimeError"
  by (simp add: slow_eval mixer_ex_def one_token_def cache_ex_def config_ex_def
      Mamba2Cache_init_def tensor_eval)

lemma slow_forward_prefill:
  "snd (slow_forward mixer_ex one_token (Some cache_ex)) = Inl RuntimeError"
  by (simp add: slow_eval mixer_ex_def one_token_def cache_ex_def config_ex_def
      Mamba2Cache_init_def tensor_eval)

lemma step_trace:
  "\<exists>z0 x0 gate hs dt c s y.
     slow_project mixer_ex one_token 1 = Some (0, z0, x0, gate, hs, dt)
     \<and> shape hs = [1, 1, 6] \<and> shape dt = [1, 1, 1]
     \<and> conv_stage mixer_ex 1 hs (Some (cache_ex\<lparr>seqlen_offset := 1\<rparr>)) = (c, Some (s, y))
     \<and> shape y = [1, 6, 1]
     \<and> discretize mixer_ex 1 1 dt y = None"
  by (simp add: slow_eval mixer_ex_def one_token_def cache_ex_def config_ex_def
      Mamba2Cache_init_def tensor_eval)

lemma prefill_trace:
  "\<exists>z0 x0 gate hs dt c s y s' out.
     slow_project mixer_ex one_token 1 = Some (0, z0, x0, gate, hs, dt)
     \<and> conv_stage mixer_ex 1 hs (Some cache_ex) = (c, Some (s, y))
     \<and> shape s = [1, 2, 2] \<and> shape y = [1, 1, 6]
     \<and> ssm_stage mixer_ex 1 1 0 z0 x0 gate dt y s = Some (s', out)
     \<and> shape s' = [1, 1, 2, 2] \<and> shape out = [1, 1, 1, 2]
     \<and> write_ssm_state mixer_ex c s' = None"
  by (simp add: slow_eval mixer_ex_def one_token_def cache_ex_def config_ex_def
      Mamba2Cache_init_def tensor_eval)

text \<open>
  Both failures hold in general.  The single-step branch returns a tensor whose last
  dimension has size 1, which line 312 cannot split unless the convolution has one channel.
\<close>

lemma conv_step_last:
  "snd (conv_step m c x) = Some y \<Longrightarrow> shape y \<noteq> [] \<and> last (shape y) = 1"
  unfolding conv_step_def
  by (auto simp: unsqueeze_def ndim_def Let_def bind_eq_Some_conv
      split: option.splits prod.splits if_splits)

lemma discretize_last:
  "discretize m b l dt h = Some r \<Longrightarrow>
   int (last (shape h)) = int (intermediate_size m) + 2 * int (n_groups m * ssm_state_size m)"
  unfolding discretize_def torch_split_def
  by (simp add: bind_eq_Some_conv split: if_splits)

lemma ssm_stage_last:
  "ssm_stage m b l d z0 x0 gate dt h s = Some r \<Longrightarrow>
   int (last (shape h)) = int (intermediate_size m) + 2 * int (n_groups m * ssm_state_size m)"
  unfolding ssm_stage_def
  by (auto simp: bind_eq_Some_conv dest: discretize_last)

lemma step_mode_never_returns:
  assumes "0 < seqlen_offset c"
    and "int (intermediate_size m) + 2 * int (n_groups m * ssm_state_size m) \<noteq> 1"
  shows "\<exists>e. snd (slow_forward m x (Some c)) = Inl e"
proof (cases "snd (slow_forward m x (Some c))")
  case (Inl e)
  then show ?thesis by blast
next
  case (Inr y)
  then obtain b l u d z0 x0 gate h dt c' s h' r where
    cs: "conv_stage m b h (Some c) = (c', Some (s, h'))"
    and ss: "ssm_stage m b l d z0 x0 gate dt h' s = Some r"
    unfolding slow_forward_def
    by (auto split: list.splits option.splits prod.splits sum.splits)
  from cs assms(1) have "snd (conv_step m c h) = Some h'"
    unfolding conv_stage_def by (auto split: option.splits prod.splits)
  from conv_step_last[OF this] ssm_stage_last[OF ss] assms(2) show ?thesis by simp
qed


text \<open>
  After one iteration of the loop, \<open>ssm_state\<close> has at least four dimensions (line 327
  multiplies it by \<^verbatim>\<open>discrete_A[:, i, :, None, None]\<close>), and line 336 cannot copy it into a
  cache tensor of three: with a cache as \<^verbatim>\<open>Mamba2Cache.__init__\<close> allocates it,
  \<^verbatim>\<open>slow_forward\<close> raises for every input that is not empty, whatever \<open>seqlen_offset\<close>.
\<close>

lemma conv_step_ssm_states: "ssm_states (fst (conv_step m c x)) = ssm_states c"
  unfolding conv_step_def by (simp split: option.split prod.split)

lemma conv_prefill_ssm_states: "ssm_states (fst (conv_prefill m c x)) = ssm_states c"
  unfolding conv_prefill_def by (simp split: option.split prod.split)

lemma conv_stage_ssm_states:
  assumes "conv_stage m b x (Some c) = (c', Some (s, h))"
  shows "\<exists>c1. c' = Some c1 \<and> ssm_states c1 = ssm_states c \<and> ssm_states c (layer_idx m) = Some s"
proof -
  from assms obtain t where t: "ssm_states c (layer_idx m) = Some t"
    by (auto simp: conv_stage_def split: option.splits)
  show ?thesis
  proof (cases "0 < seqlen_offset c")
    case True
    with assms t have "c' = Some (fst (conv_step m c x))" "s = t"
      by (auto simp: conv_stage_def split: prod.splits)
    with t conv_step_ssm_states[of m c x] show ?thesis by simp
  next
    case False
    with assms t have "c' = Some (fst (conv_prefill m c x))" "s = t"
      by (auto simp: conv_stage_def split: prod.splits)
    with t conv_prefill_ssm_states[of m c x] show ?thesis by simp
  qed
qed

lemma ssm_update_ndim: "ssm_update s dA dBu = Some s' \<Longrightarrow> ndim dA \<le> ndim s'"
  by (auto simp: ssm_update_def mul_def add_def bind_eq_Some_conv dest!: binop_ndim)

lemma scan_loop_ndim:
  "scan_loop dA dBu C steps s outs = Some (s', outs') \<Longrightarrow> steps \<noteq> [] \<or> 4 \<le> ndim s \<Longrightarrow>
   4 \<le> ndim s'"
proof (induction steps arbitrary: s outs)
  case Nil
  then show ?case by simp
next
  case (Cons i rest)
  from Cons.prems(1) obtain dAi dBi s2 outs2 where
    a: "3 \<le> ndim dA" "select 1 i dA = Some dAi"
    and u: "ssm_update s (unsqueeze 3 (unsqueeze 2 dAi)) dBi = Some s2"
    and r: "scan_loop dA dBu C rest s2 outs2 = Some (s', outs')"
    by (auto simp: bind_eq_Some_conv split: if_splits)
  from ndim_select[OF a(2)] a(1) have "2 \<le> ndim dAi" by simp
  then have "4 \<le> ndim (unsqueeze 3 (unsqueeze 2 dAi))" by (simp add: ndim_unsqueeze)
  with ssm_update_ndim[OF u] have "4 \<le> ndim s2" by simp
  with Cons.IH[OF r] show ?case by simp
qed

lemma cached_slow_forward_raises:
  assumes t: "ssm_states c (layer_idx m) = Some t" "ndim t < 4"
    and x: "shape x = [b, l, u]" "0 < l"
  shows "\<exists>e. snd (slow_forward m x (Some c)) = Inl e"
proof (cases "snd (slow_forward m x (Some c))")
  case (Inl e)
  then show ?thesis by blast
next
  case (Inr y)
  with x(1) obtain d z0 x0 gate h dt c' s h' s' out c'' where
    cs: "conv_stage m b h (Some c) = (c', Some (s, h'))"
    and ss: "ssm_stage m b l d z0 x0 gate dt h' s = Some (s', out)"
    and wr: "write_ssm_state m c' s' = Some c''"
    unfolding slow_forward_def
    by (auto split: option.splits prod.splits sum.splits)
  from conv_stage_ssm_states[OF cs] t(1) obtain c1 where
    c1: "c' = Some c1" "ssm_states c1 (layer_idx m) = Some t"
    by auto
  from wr c1 obtain w where "tensor_copy t s' = Some w"
    by (auto simp: write_ssm_state_def bind_eq_Some_conv)
  then have le: "ndim s' \<le> ndim t" by (rule tensor_copy_ndim)
  from ss obtain dA dBu C outs where
    "scan_loop dA dBu C [0..<l] s [] = Some (s', outs)"
    by (auto simp: ssm_stage_def bind_eq_Some_conv)
  moreover from x(2) have "[0..<l] \<noteq> []" by simp
  ultimately have "4 \<le> ndim s'" using scan_loop_ndim by blast
  with le t(2) show ?thesis by simp
qed

lemma cached_slow_forward_raises_init:
  assumes "layer_idx m < config_num_hidden_layers cfg"
    and "shape x = [b, l, u]" "0 < l"
  shows "\<exists>e. snd (slow_forward m x (Some ((Mamba2Cache_init cfg bsz)\<lparr>seqlen_offset := k\<rparr>))) = Inl e"
proof -
  let ?t = "zeros [bsz, config_n_groups cfg * config_state_size cfg, config_head_dim cfg]"
  have "ssm_states ((Mamba2Cache_init cfg bsz)\<lparr>seqlen_offset := k\<rparr>) (layer_idx m) = Some ?t"
    using assms(1) by (simp add: Mamba2Cache_init_def)
  moreover have "ndim ?t < 4" by (simp add: zeros_def ndim_def)
  ultimately show ?thesis using assms(2,3) by (rule cached_slow_forward_raises)
qed

text \<open>
  C1 fails on the code.  For a sequence of one token the full-sequence mode without a cache
  returns an output.  With the cache and \<open>seqlen_offset > 0\<close>, the single-step branch leaves
  \<open>hidden_states\<close> in the shape \<open>[batch, channels, 1]\<close> (line 294) and the split of line
  312 raises; with the cache and \<open>seqlen_offset = 0\<close>, the state after the loop has four
  dimensions and \<^verbatim>\<open>copy_\<close> into the cache tensor of three dimensions raises (line 336).
\<close>

theorem step_mode_raises:
  "(\<exists>y. snd (slow_forward mixer_ex one_token None) = Inr y)
   \<and> snd (slow_forward mixer_ex one_token (Some (cache_ex\<lparr>seqlen_offset := 1\<rparr>)))
       = Inl RuntimeError
   \<and> snd (slow_forward mixer_ex one_token (Some cache_ex)) = Inl RuntimeError"
  using slow_forward_no_cache slow_forward_step slow_forward_prefill by blast

lemma gate_output_ex:
  "\<exists>out. gate_output mixer_ex 1 1 0 empty_ex empty_ex gate_ex hidden_ex [scan_ex] = Some out
     \<and> shape out = [1, 1, 1, 2] \<and> entry out [0, 0, 0, 0] = 3 * silu 1"
  by (simp add: slow_eval mixer_ex_def scan_ex_def hidden_ex_def gate_ex_def empty_ex_def tensor_eval)

lemma spec_final_output_ex:
  "\<exists>out. spec_final_output mixer_ex 1 1 gate_ex hidden_ex [scan_ex] = Some out
     \<and> shape out = [1, 1, 2]
     \<and> entry out [0, 0, 0] = 3 * rsqrt (25 / 2 + 1 / 100000) * silu 1"
  by (simp add: spec_final_output_def slow_eval norm_eval mixer_ex_def scan_ex_def hidden_ex_def
      gate_ex_def tensor_eval)

lemma cuda_kernels_forward_raises: "\<exists>e. cuda_kernels_forward g tr m x cp = Inl e"
  unfolding cuda_kernels_forward_def
  by (simp split: option.split)

text \<open>
  C3 fails on the slow path: lines 331 and 332 add the skip path and multiply by the
  activated gate, with no normalization, and the result keeps the heads as a dimension of
  its own.  At the input below the slow path gives \<open>3 * silu 1\<close> in a tensor of four
  dimensions, and the gated normalization of the flattened tensor gives less.
\<close>

theorem slow_path_skips_norm:
  "\<exists>out expected.
     gate_output mixer_ex 1 1 0 empty_ex empty_ex gate_ex hidden_ex [scan_ex] = Some out
     \<and> spec_final_output mixer_ex 1 1 gate_ex hidden_ex [scan_ex] = Some expected
     \<and> shape out = [1, 1, 1, 2] \<and> shape expected = [1, 1, 2]
     \<and> entry expected [0, 0, 0] < entry out [0, 0, 0, 0]"
proof -
  from gate_output_ex obtain out where
    o: "gate_output mixer_ex 1 1 0 empty_ex empty_ex gate_ex hidden_ex [scan_ex] = Some out"
      "shape out = [1, 1, 1, 2]" "entry out [0, 0, 0, 0] = 3 * silu 1"
    by blast
  from spec_final_output_ex obtain expected where
    e: "spec_final_output mixer_ex 1 1 gate_ex hidden_ex [scan_ex] = Some expected"
      "shape expected = [1, 1, 2]"
      "entry expected [0, 0, 0] = 3 * rsqrt (25 / 2 + 1 / 100000) * silu 1"
    by blast
  have "rsqrt (25 / 2 + 1 / 100000) < 1" by (rule rsqrt_less_1) simp
  with silu_1_pos have "3 * rsqrt (25 / 2 + 1 / 100000) * silu 1 < 3 * silu 1" by simp
  with o e show ?thesis by auto
qed

section \<open>Properties: the gated normalization\<close>

lemma code_norm_gate_first:
  "\<exists>out. MambaRMSNormGated_forward norm_gate_first small_x (Some gate_one) = Some out
     \<and> entry out [0, 0, 0]
         = rsqrt ((1 / 1000)\<^sup>2 + 1 / 1000000) * silu 1 / 1000
             * rsqrt ((rsqrt ((1 / 1000)\<^sup>2 + 1 / 1000000) * silu 1 / 1000)\<^sup>2
                      + 1 / 1000000)"
  by (simp add: norm_eval norm_gate_first_def small_x_def gate_one_def tensor_eval)

lemma spec_norm_gate_first:
  "\<exists>out. spec_gated_norm norm_gate_first small_x gate_one = Some out
     \<and> entry out [0, 0, 0] = silu 1 / 1000 * rsqrt ((silu 1 / 1000)\<^sup>2 + 1 / 1000000)"
  by (simp add: spec_gated_norm_def rms_normalize_def norm_eval norm_gate_first_def small_x_def
      gate_one_def tensor_eval)

lemma gated_norm_after:
  "norm_before_gate self \<Longrightarrow>
   MambaRMSNormGated_forward self x (Some gate) = spec_gated_norm self x gate"
  by (simp add: MambaRMSNormGated_forward_def spec_gated_norm_def rms_normalize_def)

text \<open>
  C8 fails on the code in the mode \<open>norm_before_gate = False\<close>: line 114 normalizes the
  activation before line 119 multiplies it by the gate, and line 121 normalizes the product
  again, so that the epsilon floor acts on the activation and no longer on the gated
  product.  For the activation \<open>0.001\<close>, the gate 1 and \<open>eps = 1e-6\<close> on one channel, the
  code returns more than \<open>0.9\<close>, and multiplying by the gate and normalizing once gives less
  than \<open>0.75\<close>.
\<close>

theorem gated_norm_normalizes_twice:
  "\<exists>out expected.
     MambaRMSNormGated_forward norm_gate_first small_x (Some gate_one) = Some out
     \<and> spec_gated_norm norm_gate_first small_x gate_one = Some expected
     \<and> entry expected [0, 0, 0] < 3 / 4 \<and> 9 / 10 < entry out [0, 0, 0]"
proof -
  let ?e = "1 / 1000000 :: real"
  let ?a = "rsqrt ((1 / 1000)\<^sup>2 + 1 / 1000000) * silu 1 / 1000"
  let ?b = "silu 1 / 1000"
  from code_norm_gate_first obtain out where
    o: "MambaRMSNormGated_forward norm_gate_first small_x (Some gate_one) = Some out"
      "entry out [0, 0, 0] = ?a * rsqrt (?a\<^sup>2 + ?e)"
    by blast
  from spec_norm_gate_first obtain expected where
    e: "spec_gated_norm norm_gate_first small_x gate_one = Some expected"
      "entry expected [0, 0, 0] = ?b * rsqrt (?b\<^sup>2 + ?e)"
    by blast
  have s2: "1 / 4 < (silu 1)\<^sup>2" "(silu 1)\<^sup>2 < 1"
  proof -
    have "(1 / 2)\<^sup>2 < (silu 1)\<^sup>2"
      by (rule power_strict_mono) (use silu_1_bounds in simp_all)
    then show "1 / 4 < (silu 1)\<^sup>2" by (simp add: power2_eq_square)
    have "(silu 1)\<^sup>2 < 1\<^sup>2"
      by (rule power_strict_mono) (use silu_1_bounds silu_1_pos in simp_all)
    then show "(silu 1)\<^sup>2 < 1" by simp
  qed
  have h: "(1 / 1000)\<^sup>2 + 1 / 1000000 = (1 / 500000 :: real)"
    by (simp add: power2_eq_square)
  have a2: "?a\<^sup>2 = (silu 1)\<^sup>2 / 2"
    unfolding h by (simp add: power_mult_distrib power_divide rsqrt_power2)
  have "0 < ?a" unfolding h using silu_1_pos rsqrt_pos[of "1 / 500000"] by simp
  then have "9 / 10 < ?a * rsqrt (?a\<^sup>2 + ?e)"
    by (rule rms_lower) (use s2 a2 in simp_all)
  moreover have "0 < ?b" using silu_1_pos by simp
  then have "?b * rsqrt (?b\<^sup>2 + ?e) < 3 / 4"
    by (rule rms_upper) (use s2 in \<open>simp_all add: power_divide\<close>)
  ultimately show ?thesis using o e by auto
qed

section \<open>Properties: the offset of the cache\<close>

text \<open>
  The root mean square normalization with a weight of one dimension keeps the first two
  dimensions of an input of three.
\<close>

lemma rmsnorm_shape:
  assumes "Mamba2RMSNorm_forward nrm x = Some y" "shape (weight nrm) = [n]"
    and "shape y = [b, l, u]"
  shows "\<exists>k. shape x = [b, l, k]"
proof -
  let ?r = "tmap (\<lambda>v. rsqrt (v + variance_epsilon nrm)) (mean_keepdim (tmap (\<lambda>x. x\<^sup>2) x))"
  from assms(1) obtain hs where hs: "mul x ?r = Some hs" and y: "mul (weight nrm) hs = Some y"
    by (auto simp: Mamba2RMSNorm_forward_def Let_def bind_eq_Some_conv)
  from y assms(2,3) have "broadcast_shapes [n] (shape hs) = Some [b, l, u]"
    by (auto simp: mul_def binop_def split: option.splits)
  then obtain k where k: "shape hs = [b, l, k]" using broadcast_vector by blast
  show ?thesis
  proof (cases "shape x = []")
    case True
    with hs k show ?thesis
      by (auto simp: mul_def binop_def broadcast_shapes_def mean_keepdim_def tmap_def
          split: option.splits)
  next
    case False
    then obtain s j where s: "shape x = s @ [j]" by (metis rev_exhaust)
    with False have r: "shape ?r = s @ [1]"
      by (simp add: mean_keepdim_def tmap_def)
    have "broadcast_shapes (shape x) (shape ?r) = Some (s @ [j])"
      unfolding s r by (rule broadcast_keepdim)
    with hs have "shape hs = s @ [j]"
      by (auto simp: mul_def binop_def)
    with k s show ?thesis by simp
  qed
qed

text \<open>
  With a cache whose recurrent state has three dimensions, \<^verbatim>\<open>slow_forward\<close> returns on an
  empty sequence only, and so do the block and the loop over the layers; the fast path
  never returns.
\<close>

lemma cached_slow_forward_returns:
  assumes "\<forall>t. ssm_states c (layer_idx m) = Some t \<longrightarrow> ndim t < 4"
    and "snd (slow_forward m x (Some c)) = Inr y"
  shows "\<exists>b u. shape x = [b, 0, u]"
proof -
  from assms(2) obtain b l u where x: "shape x = [b, l, u]"
    unfolding slow_forward_def by (auto split: list.splits)
  from assms(2) x obtain t where t: "ssm_states c (layer_idx m) = Some t"
    unfolding slow_forward_def conv_stage_def
    by (cases "ssm_states c (layer_idx m)") (auto split: option.splits)
  with assms(1) have "ndim t < 4" by simp
  with cached_slow_forward_raises[OF t _ x] assms(2) have "\<not> 0 < l" by auto
  with x show ?thesis by simp
qed

lemma block_forward_returns:
  assumes "snd (Mamba2Block_forward g tr blk x (Some c)) = Inr y"
    and "shape (weight (block_norm blk)) = [n]"
    and "\<forall>t. ssm_states c (layer_idx (mixer blk)) = Some t \<longrightarrow> ndim t < 4"
  shows "\<exists>b k. shape x = [b, 0, k]"
proof -
  from assms(1) obtain normed where n: "Mamba2RMSNorm_forward (block_norm blk) x = Some normed"
    by (cases "Mamba2RMSNorm_forward (block_norm blk) x")
       (auto simp: Mamba2Block_forward_def)
  with assms(1) obtain mixed where
    m: "snd (Mamba2Mixer_forward g tr (mixer blk) normed (Some c)) = Inr mixed"
    by (auto simp: Mamba2Block_forward_def split: prod.splits sum.splits)
  have "\<not> is_fast_path_available g"
  proof
    assume "is_fast_path_available g"
    with m cuda_kernels_forward_raises[of g tr "mixer blk" normed "Some c"] show False
      by (auto simp: Mamba2Mixer_forward_def)
  qed
  with m have "snd (slow_forward (mixer blk) normed (Some c)) = Inr mixed"
    by (simp add: Mamba2Mixer_forward_def)
  from cached_slow_forward_returns[OF assms(3) this] obtain b u where
    "shape normed = [b, 0, u]" by blast
  from rmsnorm_shape[OF n assms(2) this] show ?thesis by blast
qed

lemma run_layers_returns:
  assumes "snd (run_layers g tr (blk # rest) x (Some c) hs) = Inr p"
  shows "\<exists>y. snd (Mamba2Block_forward g tr blk x (Some c)) = Inr y"
  using assms by (auto split: prod.splits sum.splits)

lemma forward_cache_in_use_stays:
  assumes x: "(ids = None) = (emb \<noteq> None)"
    and e: "embed_inputs m ids emb = Some e"
    and cc: "create_cache m (effective_use_cache m uc) e cp = Some (Some c)"
    and l: "layers m = blk # rest"
    and w: "shape (weight (block_norm blk)) = [n]"
    and s: "\<forall>t. ssm_states c (layer_idx (mixer blk)) = Some t \<longrightarrow> ndim t < 4"
  shows "\<exists>c'. fst (Mamba2Model_forward g m ids emb cp uc ohs rd) = Some c'
      \<and> cache_shapes c' = cache_shapes c \<and> seqlen_offset c' = seqlen_offset c
      \<and> ((\<exists>b k h. shape e = [b, k, h] \<and> 0 < k) \<longrightarrow>
           (\<exists>err. snd (Mamba2Model_forward g m ids emb cp uc ohs rd) = Inl err))"
    (is "\<exists>c'. ?P c'")
proof -
  define h where "h = (if (case ohs of Some b \<Rightarrow> b | None \<Rightarrow> config_output_hidden_states (config m))
                       then Some [] else (None :: tensor list option))"
  obtain c1 r where rl: "run_layers g (training m) (layers m) e (Some c) h = (c1, r)"
    by (cases "run_layers g (training m) (layers m) e (Some c) h")
  with run_layers_preserved[of "Some c" g "training m" "layers m" e h]
  obtain c2 where c2: "c1 = Some c2" "cache_shapes c2 = cache_shapes c"
      "seqlen_offset c2 = seqlen_offset c"
    by (auto simp: preserved_def split: option.splits)
  show ?thesis
  proof (cases r)
    case (Inl err)
    with x e cc rl c2 show ?thesis
      unfolding Mamba2Model_forward_def Let_def h_def by simp
  next
    case (Inr p)
    obtain hs ahs where p: "p = (hs, ahs)" by (cases p)
    from rl Inr l have "snd (run_layers g (training m) (blk # rest) e (Some c) h) = Inr p"
      by simp
    from run_layers_returns[OF this] obtain y where
      "snd (Mamba2Block_forward g (training m) blk e (Some c)) = Inr y" by blast
    from block_forward_returns[OF this w s] obtain b k where sh: "shape e = [b, 0, k]"
      by blast
    show ?thesis
    proof (cases "update_seqlen_offset (effective_use_cache m uc) e (Some c2)")
      case None
      with x e cc rl c2 Inr p sh show ?thesis
        unfolding Mamba2Model_forward_def Let_def h_def by simp
    next
      case u: (Some cp')
      from update_seqlen_offset_Some[OF u] sh
      obtain c3 where c3: "cp' = Some c3" "cache_shapes c3 = cache_shapes c2"
        "seqlen_offset c3 = seqlen_offset c2"
        by auto
      have "?P c3"
        using x e cc rl c2 Inr p u c3 sh
        unfolding Mamba2Model_forward_def Let_def h_def
        by (simp split: option.split)
      then show ?thesis ..
    qed
  qed
qed

lemma forward_cache_stays:
  assumes l: "layers m = blk # rest"
    and w: "shape (weight (block_norm blk)) = [n]"
    and s: "\<forall>t. ssm_states c (layer_idx (mixer blk)) = Some t \<longrightarrow> ndim t < 4"
  shows "\<exists>c'. fst (Mamba2Model_forward g m ids emb (Some c) uc ohs rd) = Some c'
      \<and> cache_shapes c' = cache_shapes c \<and> seqlen_offset c' = seqlen_offset c"
proof (cases "(ids = None) \<noteq> (emb \<noteq> None)")
  case True
  then show ?thesis by (auto simp: Mamba2Model_forward_def Let_def)
next
  case False
  show ?thesis
  proof (cases "embed_inputs m ids emb")
    case None
    with False show ?thesis by (simp add: Mamba2Model_forward_def Let_def)
  next
    case (Some e)
    have cc: "create_cache m (effective_use_cache m uc) e (Some c) = Some (Some c)"
      by (simp add: create_cache_def)
    from False have x: "(ids = None) = (emb \<noteq> None)" by simp
    from forward_cache_in_use_stays[OF x Some cc l w s, of g ohs rd] show ?thesis by blast
  qed
qed

lemma forward_nonempty_raises:
  assumes l: "layers m = blk # rest"
    and w: "shape (weight (block_norm blk)) = [n]"
    and s: "\<forall>t. ssm_states c (layer_idx (mixer blk)) = Some t \<longrightarrow> ndim t < 4"
    and e: "embed_inputs m ids emb = Some e" "shape e = [b, k, h]" "0 < k"
  shows "\<exists>err. snd (Mamba2Model_forward g m ids emb (Some c) uc ohs rd) = Inl err"
proof (cases "(ids = None) \<noteq> (emb \<noteq> None)")
  case True
  then show ?thesis by (auto simp: Mamba2Model_forward_def Let_def)
next
  case False
  have cc: "create_cache m (effective_use_cache m uc) e (Some c) = Some (Some c)"
    by (simp add: create_cache_def)
  from False have x: "(ids = None) = (emb \<noteq> None)" by simp
  from forward_cache_in_use_stays[OF x e(1) cc l w s, of g ohs rd] e(2,3) show ?thesis by blast
qed

lemma ssm_ndim_cache_shapes:
  assumes "cache_shapes c' = cache_shapes c"
    and "\<forall>t. ssm_states c i = Some t \<longrightarrow> ndim t < 4"
  shows "\<forall>t. ssm_states c' i = Some t \<longrightarrow> ndim t < 4"
proof (intro allI impI)
  fix t assume t: "ssm_states c' i = Some t"
  from assms(1) have "map_option shape (ssm_states c' i) = map_option shape (ssm_states c i)"
    by (simp add: cache_shapes_def fun_eq_iff)
  with t obtain t0 where "ssm_states c i = Some t0" "shape t0 = shape t"
    by (cases "ssm_states c i") auto
  with assms(2) show "ndim t < 4" by (auto simp: ndim_def)
qed

lemma session_seqlen_offset:
  assumes l: "layers m = blk # rest"
    and w: "shape (weight (block_norm blk)) = [n]"
    and s: "\<forall>t. ssm_states c (layer_idx (mixer blk)) = Some t \<longrightarrow> ndim t < 4"
  shows "seqlen_offset (session g m calls c) = seqlen_offset c"
  using s
proof (induction calls arbitrary: c)
  case Nil
  show ?case by simp
next
  case (Cons a calls)
  obtain ids emb uc ohs rd where a: "a = (ids, emb, uc, ohs, rd)"
    by (cases a)
  from forward_cache_stays[OF l w Cons.prems, of g ids emb uc ohs rd]
  obtain c' where c': "fst (Mamba2Model_forward g m ids emb (Some c) uc ohs rd) = Some c'"
      "cache_shapes c' = cache_shapes c" "seqlen_offset c' = seqlen_offset c"
    by blast
  from ssm_ndim_cache_shapes[OF c'(2) Cons.prems]
  have "seqlen_offset (session g m calls c') = seqlen_offset c'" by (rule Cons.IH)
  with c' a show ?case by simp
qed

lemma forward_created_cache:
  assumes l: "layers m = blk # rest"
    and w: "shape (weight (block_norm blk)) = [n]"
    and f: "fst (Mamba2Model_forward g m ids emb None uc ohs rd) = Some c'"
  shows "seqlen_offset c' = 0"
proof -
  from f have x: "(ids = None) = (emb \<noteq> None)"
    by (auto simp: Mamba2Model_forward_def Let_def split: if_splits)
  from f x obtain e where e: "embed_inputs m ids emb = Some e"
    by (cases "embed_inputs m ids emb") (auto simp: Mamba2Model_forward_def Let_def)
  define c where "c = Mamba2Cache_init (config m) (hd (shape e))"
  have cc: "create_cache m (effective_use_cache m uc) e None = Some (Some c)"
  proof (cases "create_cache m (effective_use_cache m uc) e None")
    case None
    with f x e show ?thesis by (simp add: Mamba2Model_forward_def Let_def)
  next
    case (Some cp)
    show ?thesis
    proof (cases cp)
      case None
      with Some have n: "create_cache m (effective_use_cache m uc) e None = Some None" by simp
      define hh where "hh = (if (case ohs of Some b \<Rightarrow> b | None \<Rightarrow> config_output_hidden_states (config m))
                       then Some [] else (None :: tensor list option))"
      from run_layers_preserved[of None g "training m" "layers m" e hh]
      have "fst (run_layers g (training m) (layers m) e None hh) = None"
        by (simp add: preserved_def)
      moreover from n have "\<not> effective_use_cache m uc"
        by (auto simp: create_cache_def split: if_splits)
      ultimately have "fst (Mamba2Model_forward g m ids emb None uc ohs rd) = None"
        using x e n unfolding Mamba2Model_forward_def Let_def hh_def
        by (auto simp: update_seqlen_offset_def split: prod.splits sum.splits option.splits)
      with f show ?thesis by simp
    next
      case (Some c0)
      with \<open>create_cache m (effective_use_cache m uc) e None = Some cp\<close>
      show ?thesis by (auto simp: create_cache_def c_def split: if_splits)
    qed
  qed
  have s: "\<forall>t. ssm_states c (layer_idx (mixer blk)) = Some t \<longrightarrow> ndim t < 4"
    by (auto simp: c_def Mamba2Cache_init_def zeros_def ndim_def split: if_splits)
  have z: "seqlen_offset c = 0" by (simp add: c_def Mamba2Cache_init_def)
  from forward_cache_in_use_stays[OF x e cc l w s, of g ohs rd] f z show ?thesis by auto
qed


lemma forward_one_layer:
  "\<exists>c'. Mamba2Model_forward slow_path model_one_layer (Some [[0]]) None (Some cache_ex)
           (Some True) None None = (Some c', Inl RuntimeError) \<and> seqlen_offset c' = 0"
  by (simp add: Mamba2Model_forward_def Let_def model_one_layer_def block_ex_def
      embed_inputs_def Embedding_forward_def create_cache_def effective_use_cache_def
      Mamba2Block_forward_def Mamba2Mixer_forward_def is_fast_path_available_def slow_path_def
      Mamba2RMSNorm_forward_def mean_keepdim_def
      slow_eval mixer_ex_def cache_ex_def config_ex_def Mamba2Cache_init_def tensor_eval)

text \<open>
  C7 fails on the code: \<open>seqlen_offset\<close> is not incremented after a forward call.  On a model
  with a layer, whose normalization weight has one dimension, and with a cache whose
  recurrent state has three dimensions, as \<^verbatim>\<open>Mamba2Cache.__init__\<close> allocates it, every
  forward call leaves \<open>seqlen_offset\<close> at its value: a call on an input that is not empty
  raises inside the first layer (line 336 on the slow path, the unbound names on the fast
  path) and never reaches line 624.  The same holds of a cache that line 608 creates, and
  of any sequence of forward calls on one cache: the offset of a fresh cache stays 0, and
  forward calls never select the single-step branch.
\<close>

theorem seqlen_offset_never_incremented:
  assumes "layers m = blk # rest"
    and "shape (weight (block_norm blk)) = [n]"
    and "\<forall>t. ssm_states c (layer_idx (mixer blk)) = Some t \<longrightarrow> ndim t < 4"
  shows "(\<exists>c'. fst (Mamba2Model_forward g m ids emb (Some c) uc ohs rd) = Some c'
            \<and> seqlen_offset c' = seqlen_offset c)
       \<and> (\<forall>e b k h. embed_inputs m ids emb = Some e \<and> shape e = [b, k, h] \<and> 0 < k \<longrightarrow>
            (\<exists>err. snd (Mamba2Model_forward g m ids emb (Some c) uc ohs rd) = Inl err))
       \<and> (\<forall>c'. fst (Mamba2Model_forward g m ids emb None uc ohs rd) = Some c' \<longrightarrow>
            seqlen_offset c' = 0)
       \<and> seqlen_offset (session g m calls c) = seqlen_offset c"
proof (intro conjI allI impI)
  from forward_cache_stays[OF assms, of g ids emb uc ohs rd]
  show "\<exists>c'. fst (Mamba2Model_forward g m ids emb (Some c) uc ohs rd) = Some c'
            \<and> seqlen_offset c' = seqlen_offset c"
    by blast
next
  fix e b k h
  assume "embed_inputs m ids emb = Some e \<and> shape e = [b, k, h] \<and> 0 < k"
  then have e: "embed_inputs m ids emb = Some e" "shape e = [b, k, h]" "0 < k" by simp_all
  show "\<exists>err. snd (Mamba2Model_forward g m ids emb (Some c) uc ohs rd) = Inl err"
    by (rule forward_nonempty_raises[OF assms e])
next
  fix c'
  assume "fst (Mamba2Model_forward g m ids emb None uc ohs rd) = Some c'"
  with assms(1,2) show "seqlen_offset c' = 0" by (rule forward_created_cache)
next
  show "seqlen_offset (session g m calls c) = seqlen_offset c"
    by (rule session_seqlen_offset[OF assms])
qed

text \<open>
  The theorem at the model of one layer and a fresh cache: the call with one token and
  \<open>use_cache = True\<close> raises and the offset is still 0, where the sequence length is 1; it is
  still 0 after two such calls.
\<close>

theorem seqlen_offset_never_incremented_witness:
  "(\<exists>c' err. Mamba2Model_forward slow_path model_one_layer (Some [[0]]) None (Some cache_ex)
               (Some True) None None = (Some c', Inl err)
            \<and> seqlen_offset c' = 0)
   \<and> effective_use_cache model_one_layer (Some True)
   \<and> input_seq_len (Some [[0]]) None = 1
   \<and> seqlen_offset (session slow_path model_one_layer [call_one_token, call_one_token] cache_ex)
       = 0"
proof -
  have l: "layers model_one_layer = block_ex # []"
    by (simp add: model_one_layer_def)
  have w: "shape (weight (block_norm block_ex)) = [1]"
    by (simp add: block_ex_def)
  have s: "\<forall>t. ssm_states cache_ex (layer_idx (mixer block_ex)) = Some t \<longrightarrow> ndim t < 4"
    by (simp add: cache_ex_def block_ex_def mixer_ex_def Mamba2Cache_init_def config_ex_def
        zeros_def ndim_def)
  have z: "seqlen_offset cache_ex = 0"
    by (simp add: cache_ex_def Mamba2Cache_init_def)
  have "\<exists>e. embed_inputs model_one_layer (Some [[0]]) None = Some e \<and> shape e = [1, 1, 1]"
    by (simp add: embed_inputs_def Embedding_forward_def model_one_layer_def ndim_def)
  then obtain e where e: "embed_inputs model_one_layer (Some [[0]]) None = Some e"
      "shape e = [1, 1, 1]"
    by blast
  note t = seqlen_offset_never_incremented[OF l w s, of slow_path "Some [[0]]" None "Some True"
      None None "[call_one_token, call_one_token]"]
  from t obtain c' where c': "fst (Mamba2Model_forward slow_path model_one_layer (Some [[0]]) None
      (Some cache_ex) (Some True) None None) = Some c'" "seqlen_offset c' = seqlen_offset cache_ex"
    by blast
  from t e obtain err where err: "snd (Mamba2Model_forward slow_path model_one_layer (Some [[0]])
      None (Some cache_ex) (Some True) None None) = Inl err"
    by (metis zero_less_one)
  from c'(1) err have "Mamba2Model_forward slow_path model_one_layer (Some [[0]]) None
      (Some cache_ex) (Some True) None None = (Some c', Inl err)"
    by (simp add: prod_eq_iff)
  moreover have "effective_use_cache model_one_layer (Some True)"
    by (simp add: effective_use_cache_def model_one_layer_def)
  moreover have "input_seq_len (Some [[0]]) None = 1"
    by (simp add: input_seq_len_def)
  moreover from t z have "seqlen_offset (session slow_path model_one_layer
      [call_one_token, call_one_token] cache_ex) = 0"
    by simp
  ultimately show ?thesis using c'(2) z by auto
qed

end
